theory Spec2Isabelle
  imports Complex_Main
begin

section \<open>Tensors\<close>

text \<open>
  The neuron of \<^verbatim>\<open>snntorch/_neurons/funky.py\<close> computes with torch tensors. A tensor is
  modelled by its shape and its elements in row-major order. The elements are real
  numbers: rounding, infinities and NaN of the floating-point runtime are outside this
  model. Every tensor of the runtime holds as many elements as its shape says
  (\<open>wf_tensor\<close>).
\<close>

datatype error = TypeError | RuntimeError | IndexError | UnboundLocalError

record tensor =
  shape :: "nat list"
  vals :: "real list"

definition numel :: "nat list \<Rightarrow> nat" where
  "numel s = prod_list s"

definition wf_tensor :: "tensor \<Rightarrow> bool" where
  "wf_tensor t = (length (vals t) = numel (shape t))"

definition tensor_of :: "nat list \<Rightarrow> (nat \<Rightarrow> real) \<Rightarrow> tensor" where
  "tensor_of s f = \<lparr>shape = s, vals = map f [0..<numel s]\<rparr>"

text \<open>
  Broadcasting, as torch does it for every elementwise operation of two tensors: the
  shapes are aligned at their last dimension; two aligned sizes must be equal, or one of
  them is 1; a missing leading dimension counts as 1. The functions below work on the
  reversed shapes (last dimension first). \<open>bidx_rev r s i\<close> is the position, in a
  tensor of shape \<open>s\<close>, of the element that is paired with position \<open>i\<close> of the
  result of shape \<open>r\<close>.
\<close>

fun bshape_rev :: "nat list \<Rightarrow> nat list \<Rightarrow> nat list option" where
  "bshape_rev [] ys = Some ys"
| "bshape_rev (x # xs) [] = Some (x # xs)"
| "bshape_rev (x # xs) (y # ys) =
     (if x = y \<or> y = 1 then map_option ((#) x) (bshape_rev xs ys)
      else if x = 1 then map_option ((#) y) (bshape_rev xs ys)
      else None)"

definition broadcast_shapes :: "nat list \<Rightarrow> nat list \<Rightarrow> nat list option" where
  "broadcast_shapes a b = map_option rev (bshape_rev (rev a) (rev b))"

fun bidx_rev :: "nat list \<Rightarrow> nat list \<Rightarrow> nat \<Rightarrow> nat" where
  "bidx_rev (d # r) (e # s) i = (if e = 1 then 0 else i mod d) + e * bidx_rev r s (i div d)"
| "bidx_rev r [] i = 0"
| "bidx_rev [] (e # s) i = 0"

definition bget :: "nat list \<Rightarrow> tensor \<Rightarrow> nat \<Rightarrow> real" where
  "bget r t i = vals t ! bidx_rev (rev r) (rev (shape t)) i"

definition bop :: "(real \<Rightarrow> real \<Rightarrow> real) \<Rightarrow> tensor \<Rightarrow> tensor \<Rightarrow> error + tensor" where
  "bop f a b =
     (case broadcast_shapes (shape a) (shape b) of
        None \<Rightarrow> Inl RuntimeError
      | Some r \<Rightarrow> Inr (tensor_of r (\<lambda>i. f (bget r a i) (bget r b i))))"

definition tadd :: "tensor \<Rightarrow> tensor \<Rightarrow> error + tensor" where
  "tadd = bop (+)"

definition tsub :: "tensor \<Rightarrow> tensor \<Rightarrow> error + tensor" where
  "tsub = bop (-)"

definition tmul :: "tensor \<Rightarrow> tensor \<Rightarrow> error + tensor" where
  "tmul = bop (*)"

text \<open>
  Division of tensors. Where the divisor holds a zero, torch yields an infinity or NaN
  and HOL yields 0: statements about \<open>tdiv\<close> are meaningful for divisors without a
  zero element only.
\<close>

definition tdiv :: "tensor \<Rightarrow> tensor \<Rightarrow> error + tensor" where
  "tdiv = bop (/)"

definition tmap :: "(real \<Rightarrow> real) \<Rightarrow> tensor \<Rightarrow> tensor" where
  "tmap f t = \<lparr>shape = shape t, vals = map f (vals t)\<rparr>"

text \<open>\<^verbatim>\<open>x.clamp(0, 1)\<close>, \<^verbatim>\<open>1 - x\<close>, \<^verbatim>\<open>torch.zeros_like(x)\<close>, \<^verbatim>\<open>torch.zeros(0)\<close>
  and \<^verbatim>\<open>torch.any(x)\<close>.\<close>

definition clamp01 :: "real \<Rightarrow> real" where
  "clamp01 b = min 1 (max 0 b)"

definition clamp :: "tensor \<Rightarrow> tensor" where
  "clamp t = tmap clamp01 t"

definition one_minus :: "tensor \<Rightarrow> tensor" where
  "one_minus t = tmap (\<lambda>v. 1 - v) t"

definition zeros_like :: "tensor \<Rightarrow> tensor" where
  "zeros_like t = tensor_of (shape t) (\<lambda>i. 0)"

definition zeros0 :: tensor where
  "zeros0 = \<lparr>shape = [0], vals = []\<rparr>"

definition tany :: "tensor \<Rightarrow> bool" where
  "tany t = list_ex (\<lambda>v. v \<noteq> 0) (vals t)"

text \<open>
  \<^verbatim>\<open>a += b\<close> on tensors writes the sum into \<open>a\<close>: torch refuses it unless the
  broadcast shape is the shape of \<open>a\<close>.
\<close>

definition iadd :: "tensor \<Rightarrow> tensor \<Rightarrow> error + tensor" where
  "iadd a b =
     (case tadd a b of
        Inl e \<Rightarrow> Inl e
      | Inr c \<Rightarrow> if shape c = shape a then Inr c else Inl RuntimeError)"

text \<open>
  \<^verbatim>\<open>torch.normal(mean, std, size)\<close> draws one sample per element. The randomness is an
  argument of the model: \<open>z i\<close> is the standard normal draw behind element \<open>i\<close>, and the
  sample is \<open>mean + std * z i\<close>. torch refuses a negative standard deviation.
\<close>

definition normal :: "real \<Rightarrow> real \<Rightarrow> nat list \<Rightarrow> (nat \<Rightarrow> real) \<Rightarrow> error + tensor" where
  "normal mean std sz z =
     (if std < 0 then Inl RuntimeError
      else Inr (tensor_of sz (\<lambda>i. mean + std * z i)))"

section \<open>The neuron: configuration and state\<close>

text \<open>
  The constructor arguments that \<^verbatim>\<open>funky.py\<close> reads afterwards are the configuration;
  they do not change. \<open>state_quant\<close> is the injected quantisation function
  (\<open>None\<close> for the default \<^verbatim>\<open>False\<close>). The attributes that \<^verbatim>\<open>forward\<close> assigns are the
  state: \<^verbatim>\<open>self.mem\<close>, \<^verbatim>\<open>self.reset\<close>, and \<^verbatim>\<open>self.threshold\<close>, the one tensor object
  that the file mutates in place.
\<close>

datatype reset_mechanism = Subtract | Zero | NoReset

record config =
  beta :: tensor
  funkiness :: real
  init_hidden :: bool
  inhibition :: bool
  reset_mechanism_val :: reset_mechanism
  state_quant :: "(tensor \<Rightarrow> tensor) option"
  output_flag :: bool
  graded_spikes_factor :: tensor
  reset_delay :: bool

record funky_state =
  mem :: tensor
  reset :: tensor
  threshold :: tensor

text \<open>
  The threshold is the one tensor that the file changes in place: \<^verbatim>\<open>self.threshold += ...\<close>
  writes the sum into the tensor object that the attribute holds and binds the attribute
  to that same object. Every other assignment binds an attribute to a new tensor. So the
  state holds what each attribute's tensor contains, and a name that is bound to the
  threshold object is modelled as a reference to it.

  \<open>local_ref\<close> is the local name \<^verbatim>\<open>threshold_before_spike\<close> of \<^verbatim>\<open>forward\<close>: not
  assigned on the path taken, or bound to the threshold object. The assignment
  \<^verbatim>\<open>threshold_before_spike = self.threshold\<close> binds the name to the object and copies
  nothing, so reading the name gives what the object holds at the time of the read;
  reading a name that was not assigned raises.
\<close>

datatype local_ref = Unbound | ThresholdObject

definition read_local :: "funky_state \<Rightarrow> local_ref \<Rightarrow> error + tensor" where
  "read_local st v =
     (case v of Unbound \<Rightarrow> Inl UnboundLocalError | ThresholdObject \<Rightarrow> Inr (threshold st))"

definition quant :: "config \<Rightarrow> tensor \<Rightarrow> tensor" where
  "quant cfg t = (case state_quant cfg of None \<Rightarrow> t | Some q \<Rightarrow> q t)"

text \<open>\<^verbatim>\<open>_init_mem\<close> and \<^verbatim>\<open>reset_mem\<close>.\<close>

definition init_mem :: "funky_state \<Rightarrow> funky_state" where
  "init_mem st = st\<lparr>mem := zeros0\<rparr>"

definition reset_mem :: "funky_state \<Rightarrow> tensor \<times> funky_state" where
  "reset_mem st = (zeros_like (mem st), st\<lparr>mem := zeros_like (mem st)\<rparr>)"

section \<open>The base class\<close>

text \<open>
  Modelled from the spec: the surrogate spike function of the base class, which is not
  among the sources. Its forward value is the exact 0/1 threshold crossing: 1 where the
  shifted membrane is positive, else 0.
\<close>

definition spike_grad :: "tensor \<Rightarrow> tensor" where
  "spike_grad t = tmap (\<lambda>v. if 0 < v then 1 else 0) t"

text \<open>
  Modelled from the spec: \<^verbatim>\<open>mem_reset\<close> of the base class, the reset indicator of a
  membrane value: 1 where it exceeds the threshold, else 0, by the same comparison.
\<close>

definition mem_reset :: "funky_state \<Rightarrow> tensor \<Rightarrow> error + tensor" where
  "mem_reset st m =
     (case tsub m (threshold st) of Inl e \<Rightarrow> Inl e | Inr mem_shift \<Rightarrow> Inr (spike_grad mem_shift))"

text \<open>
  Modelled from the spec: \<^verbatim>\<open>fire_inhibition\<close> of the base class, winner-take-all
  firing: in each batch element (an index of the first dimension) only the neuron with
  the highest membrane value may spike. It reads the threshold and writes nothing.
\<close>

fun argmax_from :: "nat \<Rightarrow> real \<Rightarrow> nat \<Rightarrow> real list \<Rightarrow> nat" where
  "argmax_from best bv i [] = best"
| "argmax_from best bv i (x # xs) =
     (if bv < x then argmax_from i x (Suc i) xs else argmax_from best bv (Suc i) xs)"

definition argmax :: "real list \<Rightarrow> nat" where
  "argmax xs = (case xs of [] \<Rightarrow> 0 | x # ys \<Rightarrow> argmax_from 0 x 1 ys)"

fun rows :: "nat \<Rightarrow> nat \<Rightarrow> real list \<Rightarrow> real list list" where
  "rows 0 n xs = []"
| "rows (Suc k) n xs = take n xs # rows k n (drop n xs)"

definition winner_mask :: "tensor \<Rightarrow> tensor" where
  "winner_mask t =
     (case shape t of
        [] \<Rightarrow> tmap (\<lambda>v. 1) t
      | d # s \<Rightarrow>
          \<lparr>shape = shape t,
           vals = concat (map (\<lambda>row. map (\<lambda>j. if j = argmax row then 1 else 0) [0..<length row])
                             (rows d (numel s) (vals t)))\<rparr>)"

definition fire_inhibition :: "funky_state \<Rightarrow> nat \<Rightarrow> tensor \<Rightarrow> error + tensor" where
  "fire_inhibition st batch_size m =
     (case tsub m (threshold st) of
        Inl e \<Rightarrow> Inl e
      | Inr mem_shift \<Rightarrow> tmul (spike_grad mem_shift) (winner_mask mem_shift))"

text \<open>\<^verbatim>\<open>self.mem.size(0)\<close>: a tensor without dimensions has no size 0.\<close>

definition size0 :: "tensor \<Rightarrow> error + nat" where
  "size0 t = (case shape t of [] \<Rightarrow> Inl IndexError | d # s \<Rightarrow> Inr d)"

section \<open>The state functions\<close>

text \<open>\<^verbatim>\<open>_base_state_function\<close>, \<^verbatim>\<open>_base_sub\<close>, \<^verbatim>\<open>_base_zero\<close> and \<^verbatim>\<open>_base_int\<close>.
  Each returns its value and the state it leaves: \<^verbatim>\<open>_base_zero\<close> assigns
  \<^verbatim>\<open>self.mem\<close> before it computes.\<close>

definition base_state_function :: "config \<Rightarrow> funky_state \<Rightarrow> tensor \<Rightarrow> error + tensor" where
  "base_state_function cfg st input =
     (case tmul (clamp (beta cfg)) (mem st) of
        Inl e \<Rightarrow> Inl e
      | Inr bm \<Rightarrow> tadd bm input)"

definition base_sub :: "config \<Rightarrow> funky_state \<Rightarrow> tensor \<Rightarrow> (error + tensor) \<times> funky_state" where
  "base_sub cfg st input =
     (case base_state_function cfg st input of
        Inl e \<Rightarrow> (Inl e, st)
      | Inr b \<Rightarrow>
          (case tmul (reset st) (threshold st) of
             Inl e \<Rightarrow> (Inl e, st)
           | Inr rt \<Rightarrow> (tsub b rt, st)))"

definition base_zero :: "config \<Rightarrow> funky_state \<Rightarrow> tensor \<Rightarrow> (error + tensor) \<times> funky_state" where
  "base_zero cfg st input =
     (case tmul (one_minus (reset st)) (mem st) of
        Inl e \<Rightarrow> (Inl e, st)
      | Inr zeroed \<Rightarrow> (base_state_function cfg (st\<lparr>mem := zeroed\<rparr>) input, st\<lparr>mem := zeroed\<rparr>))"

definition base_int :: "config \<Rightarrow> funky_state \<Rightarrow> tensor \<Rightarrow> (error + tensor) \<times> funky_state" where
  "base_int cfg st input = (base_state_function cfg st input, st)"

text \<open>The constructor selects the state function by the reset mechanism.\<close>

definition state_function :: "config \<Rightarrow> funky_state \<Rightarrow> tensor \<Rightarrow> (error + tensor) \<times> funky_state" where
  "state_function cfg st input =
     (case reset_mechanism_val cfg of
        Subtract \<Rightarrow> base_sub cfg st input
      | Zero \<Rightarrow> base_zero cfg st input
      | NoReset \<Rightarrow> base_int cfg st input)"

section \<open>Spike generation\<close>

text \<open>
  \<^verbatim>\<open>Funky.fire\<close>: the spikes of a membrane value, and the side effect on the threshold.
  When any spike is nonzero, a normal sample of the threshold's shape is added to the
  threshold object in place.
\<close>

definition fire :: "config \<Rightarrow> funky_state \<Rightarrow> tensor \<Rightarrow> (nat \<Rightarrow> real) \<Rightarrow> (error + tensor) \<times> funky_state" where
  "fire cfg st m z =
     (case tsub (quant cfg m) (threshold st) of
        Inl e \<Rightarrow> (Inl e, st)
      | Inr mem_shift \<Rightarrow>
          (case tmul (spike_grad mem_shift) (graded_spikes_factor cfg) of
             Inl e \<Rightarrow> (Inl e, st)
           | Inr spk \<Rightarrow>
               if tany spk then
                 (case normal 0 (funkiness cfg) (shape (threshold st)) z of
                    Inl e \<Rightarrow> (Inl e, st)
                  | Inr noise \<Rightarrow>
                      (case iadd (threshold st) noise of
                         Inl e \<Rightarrow> (Inl e, st)
                       | Inr th \<Rightarrow> (Inr spk, st\<lparr>threshold := th\<rparr>)))
               else (Inr spk, st)))"

section \<open>The forward step\<close>

text \<open>
  \<^verbatim>\<open>Funky.forward\<close>, in the order of the source. Every part returns the state as the
  Python statement leaves it, also when it raises.

  Lines 206 to 212: an explicit membrane argument replaces \<^verbatim>\<open>self.mem\<close>; then the
  configuration error is raised when the neuron owns its hidden state.
\<close>

definition accept_mem :: "config \<Rightarrow> funky_state \<Rightarrow> tensor option \<Rightarrow> (error + unit) \<times> funky_state" where
  "accept_mem cfg st mem_arg =
     (let st1 = (case mem_arg of None \<Rightarrow> st | Some m \<Rightarrow> st\<lparr>mem := m\<rparr>) in
      if init_hidden cfg \<and> mem_arg \<noteq> None then (Inl TypeError, st1) else (Inr (), st1))"

text \<open>Lines 214 and 215: a membrane of another shape than the input is replaced by
  zeros of the input's shape.\<close>

definition match_shape :: "funky_state \<Rightarrow> tensor \<Rightarrow> funky_state" where
  "match_shape st input =
     (if shape (mem st) \<noteq> shape input then st\<lparr>mem := zeros_like input\<rparr> else st)"

text \<open>Lines 217 and 218: the reset indicator of the membrane as it stands, then the
  state function.\<close>

definition update_membrane :: "config \<Rightarrow> funky_state \<Rightarrow> tensor \<Rightarrow> (error + unit) \<times> funky_state" where
  "update_membrane cfg st input =
     (case mem_reset st (mem st) of
        Inl e \<Rightarrow> (Inl e, st)
      | Inr r \<Rightarrow>
          (case state_function cfg (st\<lparr>reset := r\<rparr>) input of
             (Inl e, st') \<Rightarrow> (Inl e, st')
           | (Inr m, st') \<Rightarrow> (Inr (), st'\<lparr>mem := m\<rparr>)))"

text \<open>Lines 220 and 221: the optional quantisation of the new membrane.\<close>

definition quantize_mem :: "config \<Rightarrow> funky_state \<Rightarrow> funky_state" where
  "quantize_mem cfg st = st\<lparr>mem := quant cfg (mem st)\<rparr>"

text \<open>Lines 223 to 229: winner-take-all firing of the base class in inhibition mode,
  else the name \<^verbatim>\<open>threshold_before_spike\<close> is bound and \<^verbatim>\<open>fire\<close> is called.\<close>

definition spike :: "config \<Rightarrow> funky_state \<Rightarrow> (nat \<Rightarrow> real) \<Rightarrow> (error + tensor \<times> local_ref) \<times> funky_state" where
  "spike cfg st z =
     (if inhibition cfg then
        (case size0 (mem st) of
           Inl e \<Rightarrow> (Inl e, st)
         | Inr batch_size \<Rightarrow>
             (case fire_inhibition st batch_size (mem st) of
                Inl e \<Rightarrow> (Inl e, st)
              | Inr spk \<Rightarrow> (Inr (spk, Unbound), st)))
      else
        (case fire cfg st (mem st) z of
           (Inl e, st') \<Rightarrow> (Inl e, st')
         | (Inr spk, st') \<Rightarrow> (Inr (spk, ThresholdObject), st')))"

text \<open>Lines 231 to 238: without reset delay, the reset that the spikes of this step call
  for is applied at once. \<open>tbs\<close> is the local name \<^verbatim>\<open>threshold_before_spike\<close>.\<close>

definition immediate_reset :: "config \<Rightarrow> funky_state \<Rightarrow> tensor \<Rightarrow> local_ref \<Rightarrow> (error + unit) \<times> funky_state" where
  "immediate_reset cfg st spk tbs =
     (if \<not> reset_delay cfg then
        (case tdiv spk (graded_spikes_factor cfg) of
           Inl e \<Rightarrow> (Inl e, st)
         | Inr q \<Rightarrow>
             (case tsub q (reset st) of
                Inl e \<Rightarrow> (Inl e, st)
              | Inr do_reset \<Rightarrow>
                  (case reset_mechanism_val cfg of
                     Subtract \<Rightarrow>
                       (case read_local st tbs of
                          Inl e \<Rightarrow> (Inl e, st)
                        | Inr th \<Rightarrow>
                            (case tmul do_reset th of
                               Inl e \<Rightarrow> (Inl e, st)
                             | Inr d \<Rightarrow>
                                 (case tsub (mem st) d of
                                    Inl e \<Rightarrow> (Inl e, st)
                                  | Inr m \<Rightarrow> (Inr (), st\<lparr>mem := m\<rparr>))))
                   | Zero \<Rightarrow>
                       (case tmul do_reset (mem st) of
                          Inl e \<Rightarrow> (Inl e, st)
                        | Inr d \<Rightarrow>
                            (case tsub (mem st) d of
                               Inl e \<Rightarrow> (Inl e, st)
                             | Inr m \<Rightarrow> (Inr (), st\<lparr>mem := m\<rparr>)))
                   | NoReset \<Rightarrow> (Inr (), st))))
      else (Inr (), st))"

text \<open>Lines 240 to 245: the spikes alone, or the spikes and the membrane.\<close>

definition returned :: "config \<Rightarrow> funky_state \<Rightarrow> tensor \<Rightarrow> tensor \<times> tensor option" where
  "returned cfg st spk =
     (if output_flag cfg then (spk, Some (mem st))
      else if init_hidden cfg then (spk, None)
      else (spk, Some (mem st)))"

definition forward ::
  "config \<Rightarrow> funky_state \<Rightarrow> tensor \<Rightarrow> tensor option \<Rightarrow> (nat \<Rightarrow> real) \<Rightarrow>
     (error + tensor \<times> tensor option) \<times> funky_state" where
  "forward cfg st input mem_arg z =
     (case accept_mem cfg st mem_arg of
        (Inl e, st1) \<Rightarrow> (Inl e, st1)
      | (Inr u, st1) \<Rightarrow>
          (case update_membrane cfg (match_shape st1 input) input of
             (Inl e, st3) \<Rightarrow> (Inl e, st3)
           | (Inr u, st3) \<Rightarrow>
               (case spike cfg (quantize_mem cfg st3) z of
                  (Inl e, st5) \<Rightarrow> (Inl e, st5)
                | (Inr (spk, tbs), st5) \<Rightarrow>
                    (case immediate_reset cfg st5 spk tbs of
                       (Inl e, st6) \<Rightarrow> (Inl e, st6)
                     | (Inr u, st6) \<Rightarrow> (Inr (returned cfg st6 spk), st6)))))"

text \<open>A sequence of forward calls on one neuron; an exception ends it.\<close>

fun run ::
  "config \<Rightarrow> funky_state \<Rightarrow> (tensor \<times> tensor option \<times> (nat \<Rightarrow> real)) list \<Rightarrow>
     (error + tensor \<times> tensor option) list \<times> funky_state" where
  "run cfg st [] = ([], st)"
| "run cfg st ((input, mem_arg, z) # calls) =
     (case forward cfg st input mem_arg z of
        (Inl e, st') \<Rightarrow> ([Inl e], st')
      | (Inr out, st') \<Rightarrow>
          (case run cfg st' calls of (outs, st'') \<Rightarrow> (Inr out # outs, st'')))"

section \<open>The unmodified base neuron\<close>

text \<open>
  Modelled from the spec: the leaky integrate-and-fire neuron of the base library, which
  is not among the sources. The spec gives it the same forward step, with the spike
  generation that \<^verbatim>\<open>Funky.fire\<close> overrides: the steps of \<^verbatim>\<open>fire\<close> without the side
  effect on the threshold. Its immediate reset reads the threshold itself.
\<close>

definition leaky_fire :: "config \<Rightarrow> funky_state \<Rightarrow> tensor \<Rightarrow> error + tensor" where
  "leaky_fire cfg st m =
     (case tsub (quant cfg m) (threshold st) of
        Inl e \<Rightarrow> Inl e
      | Inr mem_shift \<Rightarrow> tmul (spike_grad mem_shift) (graded_spikes_factor cfg))"

definition leaky_spike :: "config \<Rightarrow> funky_state \<Rightarrow> (error + tensor) \<times> funky_state" where
  "leaky_spike cfg st =
     (if inhibition cfg then
        (case size0 (mem st) of
           Inl e \<Rightarrow> (Inl e, st)
         | Inr batch_size \<Rightarrow> (fire_inhibition st batch_size (mem st), st))
      else (leaky_fire cfg st (mem st), st))"

definition leaky_forward ::
  "config \<Rightarrow> funky_state \<Rightarrow> tensor \<Rightarrow> tensor option \<Rightarrow>
     (error + tensor \<times> tensor option) \<times> funky_state" where
  "leaky_forward cfg st input mem_arg =
     (case accept_mem cfg st mem_arg of
        (Inl e, st1) \<Rightarrow> (Inl e, st1)
      | (Inr u, st1) \<Rightarrow>
          (case update_membrane cfg (match_shape st1 input) input of
             (Inl e, st3) \<Rightarrow> (Inl e, st3)
           | (Inr u, st3) \<Rightarrow>
               (case leaky_spike cfg (quantize_mem cfg st3) of
                  (Inl e, st5) \<Rightarrow> (Inl e, st5)
                | (Inr spk, st5) \<Rightarrow>
                    (case immediate_reset cfg st5 spk ThresholdObject of
                       (Inl e, st6) \<Rightarrow> (Inl e, st6)
                     | (Inr u, st6) \<Rightarrow> (Inr (returned cfg st6 spk), st6)))))"

fun leaky_run ::
  "config \<Rightarrow> funky_state \<Rightarrow> (tensor \<times> tensor option \<times> (nat \<Rightarrow> real)) list \<Rightarrow>
     (error + tensor \<times> tensor option) list \<times> funky_state" where
  "leaky_run cfg st [] = ([], st)"
| "leaky_run cfg st ((input, mem_arg, z) # calls) =
     (case leaky_forward cfg st input mem_arg of
        (Inl e, st') \<Rightarrow> ([Inl e], st')
      | (Inr out, st') \<Rightarrow>
          (case leaky_run cfg st' calls of (outs, st'') \<Rightarrow> (Inr out # outs, st'')))"

section \<open>Well-formed calls and example values\<close>

text \<open>
  \<open>into r t\<close>: the tensor \<open>t\<close> broadcasts into the shape \<open>r\<close>, so an operation of a
  tensor of shape \<open>r\<close> with \<open>t\<close> succeeds and has shape \<open>r\<close>. A scalar broadcasts
  into every shape, a vector of one value per neuron into a batch of such rows.
  \<open>fits r t\<close>: moreover \<open>t\<close> is well-formed.
\<close>

definition into :: "nat list \<Rightarrow> tensor \<Rightarrow> bool" where
  "into r t = (broadcast_shapes r (shape t) = Some r)"

definition fits :: "nat list \<Rightarrow> tensor \<Rightarrow> bool" where
  "fits r t = (wf_tensor t \<and> broadcast_shapes r (shape t) = Some r)"

text \<open>
  A call conforms when the decay rate, the threshold and the graded-spike factor fit
  the input's shape (the parameter shapes the docstring names: one value, or one per
  neuron), and the injected quantisation function keeps the shape of what it
  quantises.
\<close>

definition conforms :: "config \<Rightarrow> funky_state \<Rightarrow> tensor \<Rightarrow> tensor option \<Rightarrow> bool" where
  "conforms cfg st x mem_arg =
     (wf_tensor x \<and> wf_tensor (case mem_arg of None \<Rightarrow> mem st | Some m \<Rightarrow> m) \<and>
      fits (shape x) (beta cfg) \<and> fits (shape x) (threshold st) \<and>
      fits (shape x) (graded_spikes_factor cfg) \<and>
      (\<forall>t. wf_tensor t \<longrightarrow> wf_tensor (quant cfg t) \<and> shape (quant cfg t) = shape t))"

text \<open>The state between the parts of a conforming call: membrane and reset indicator
  have the input's shape \<open>r\<close>.\<close>

definition ready :: "nat list \<Rightarrow> funky_state \<Rightarrow> bool" where
  "ready r st =
     (shape (mem st) = r \<and> wf_tensor (mem st) \<and> shape (reset st) = r \<and> wf_tensor (reset st) \<and>
      fits r (threshold st))"

text \<open>
  The state in which a forward call reaches line 217: the membrane is the argument if one
  is passed, else the stored one, and zeros of the input's shape when its shape is not
  the input's. \<open>starting_mem\<close> is the membrane the step computes from.
\<close>

definition prepared :: "funky_state \<Rightarrow> tensor \<Rightarrow> tensor option \<Rightarrow> funky_state" where
  "prepared st input mem_arg =
     match_shape (case mem_arg of None \<Rightarrow> st | Some m \<Rightarrow> st\<lparr>mem := m\<rparr>) input"

definition starting_mem :: "funky_state \<Rightarrow> tensor \<Rightarrow> tensor option \<Rightarrow> tensor" where
  "starting_mem st input mem_arg = mem (prepared st input mem_arg)"

text \<open>The state a forward call leaves at line 218, after the reset indicator and the state
  function.\<close>

definition updated :: "config \<Rightarrow> funky_state \<Rightarrow> tensor \<Rightarrow> tensor option \<Rightarrow> funky_state" where
  "updated cfg st input mem_arg = snd (update_membrane cfg (prepared st input mem_arg) input)"

text \<open>
  The update formulas in the words of the spec, element by element over a shape \<open>r\<close>,
  to compare the state functions with: the reset indicator \<open>R\<close> (1 where the previous
  membrane exceeds the threshold, else 0), \<open>\<beta>\<cdot>mem + I - R\<cdot>\<theta>\<close>, the zeroed membrane
  \<open>(1 - R)\<cdot>mem\<close>, and \<open>\<beta>\<cdot>mem + I\<close>, with \<open>\<beta>\<close> clamped to the interval from 0 to 1.
  Element \<open>i\<close> of each operand is the one that broadcasting pairs with position \<open>i\<close>
  (\<open>bget r t i\<close>; for a tensor of shape \<open>r\<close> itself that is \<open>vals t ! i\<close>).
\<close>

definition spec_reset :: "nat list \<Rightarrow> tensor \<Rightarrow> tensor \<Rightarrow> tensor" where
  "spec_reset r th m = tensor_of r (\<lambda>i. if bget r th i < bget r m i then 1 else 0)"

definition spec_subtract :: "nat list \<Rightarrow> tensor \<Rightarrow> tensor \<Rightarrow> tensor \<Rightarrow> tensor \<Rightarrow> tensor \<Rightarrow> tensor" where
  "spec_subtract r b m x R th =
     tensor_of r (\<lambda>i. clamp01 (bget r b i) * bget r m i + bget r x i - bget r R i * bget r th i)"

definition spec_zeroed :: "nat list \<Rightarrow> tensor \<Rightarrow> tensor \<Rightarrow> tensor" where
  "spec_zeroed r R m = tensor_of r (\<lambda>i. (1 - bget r R i) * bget r m i)"

definition spec_integrate :: "nat list \<Rightarrow> tensor \<Rightarrow> tensor \<Rightarrow> tensor \<Rightarrow> tensor" where
  "spec_integrate r b m x = tensor_of r (\<lambda>i. clamp01 (bget r b i) * bget r m i + bget r x i)"

text \<open>Tensor literals, the constructor's default arguments, and the state the
  constructor leaves (\<^verbatim>\<open>self.reset\<close> is assigned by \<^verbatim>\<open>forward\<close> before it is read).\<close>

definition scalar :: "real \<Rightarrow> tensor" where
  "scalar v = \<lparr>shape = [], vals = [v]\<rparr>"

definition vector :: "real list \<Rightarrow> tensor" where
  "vector xs = \<lparr>shape = [length xs], vals = xs\<rparr>"

definition matrix :: "nat \<Rightarrow> nat \<Rightarrow> real list \<Rightarrow> tensor" where
  "matrix b n xs = \<lparr>shape = [b, n], vals = xs\<rparr>"

definition default_config :: "tensor \<Rightarrow> config" where
  "default_config b =
     \<lparr>beta = b, funkiness = 0, init_hidden = False, inhibition = False,
      reset_mechanism_val = Subtract, state_quant = None, output_flag = False,
      graded_spikes_factor = scalar 1, reset_delay = True\<rparr>"

definition initial_state :: "tensor \<Rightarrow> funky_state" where
  "initial_state th = \<lparr>mem = zeros0, reset = zeros0, threshold = th\<rparr>"

section \<open>Tensor lemmas\<close>

lemma shape_tensor_of [simp]: "shape (tensor_of s f) = s"
  by (simp add: tensor_of_def)

lemma vals_tensor_of: "i < numel s \<Longrightarrow> vals (tensor_of s f) ! i = f i"
  by (simp add: tensor_of_def)

lemma wf_tensor_of [simp]: "wf_tensor (tensor_of s f)"
  by (simp add: tensor_of_def wf_tensor_def)

lemma tensor_of_cong: "(\<And>i. i < numel s \<Longrightarrow> f i = g i) \<Longrightarrow> tensor_of s f = tensor_of s g"
  by (simp add: tensor_of_def)

lemma tensor_of_vals: "wf_tensor t \<Longrightarrow> tensor_of (shape t) (\<lambda>i. vals t ! i) = t"
  using map_nth [of "vals t"] by (cases t) (simp add: tensor_of_def wf_tensor_def)

lemma tmap_tensor_of: "tmap f (tensor_of s g) = tensor_of s (\<lambda>i. f (g i))"
  by (simp add: tmap_def tensor_of_def)

lemma bshape_rev_same: "bshape_rev r r = Some r"
  by (induction r) auto

lemma bshape_rev_Nil2 [simp]: "bshape_rev ys [] = Some ys"
  by (cases ys) auto

lemma bshape_rev_commute: "bshape_rev a b = bshape_rev b a"
  by (induction a b rule: bshape_rev.induct) auto

lemma broadcast_shapes_same [simp]: "broadcast_shapes r r = Some r"
  by (simp add: broadcast_shapes_def bshape_rev_same)

lemma broadcast_shapes_commute: "broadcast_shapes a b = broadcast_shapes b a"
  by (simp add: broadcast_shapes_def bshape_rev_commute)

lemma bidx_rev_same: "i < prod_list r \<Longrightarrow> bidx_rev r r i = i"
proof (induction r arbitrary: i)
  case Nil
  then show ?case by simp
next
  case (Cons d r)
  from Cons.prems have d: "0 < d" by (cases d) auto
  from Cons.prems d have "i div d < prod_list r"
    by (simp add: less_mult_imp_div_less mult.commute)
  then have "bidx_rev r r (i div d) = i div d" by (rule Cons.IH)
  then show ?case by (cases "d = 1") auto
qed

lemma bshape_rev_into:
  "bshape_rev (x # xs) (y # ys) = Some (x # xs) \<Longrightarrow> (y = x \<or> y = 1) \<and> bshape_rev xs ys = Some xs"
  by (auto split: if_splits)

lemma bidx_rev_less:
  "bshape_rev r s = Some r \<Longrightarrow> i < prod_list r \<Longrightarrow> bidx_rev r s i < prod_list s"
proof (induction r s arbitrary: i rule: bshape_rev.induct)
  case (1 ys)
  then show ?case by simp
next
  case (2 x xs)
  then show ?case by simp
next
  case (3 x xs y ys)
  from "3.prems"(1) have y: "y = x \<or> y = 1" and sub: "bshape_rev xs ys = Some xs"
    using bshape_rev_into by blast+
  from "3.prems"(2) have x: "0 < x" by (cases x) auto
  from "3.prems"(2) x have "i div x < prod_list xs"
    by (simp add: less_mult_imp_div_less mult.commute)
  have b: "bidx_rev xs ys (i div x) < prod_list ys"
  proof (cases "x = y \<or> y = 1")
    case True
    then show ?thesis using "3.IH"(1) sub \<open>i div x < prod_list xs\<close> by blast
  next
    case False
    with y show ?thesis by auto
  qed
  have c: "(if y = 1 then 0 else i mod x) < y"
    using y x by auto
  have "(if y = 1 then 0 else i mod x) + y * bidx_rev xs ys (i div x) < y + y * bidx_rev xs ys (i div x)"
    using c by simp
  also have "\<dots> = y * Suc (bidx_rev xs ys (i div x))" by simp
  also have "\<dots> \<le> y * prod_list ys"
    using b by (intro mult_le_mono2) simp
  finally show ?case by simp
qed

lemma fits_index:
  assumes "fits r t" "i < numel r"
  shows "bidx_rev (rev r) (rev (shape t)) i < length (vals t)"
proof -
  from assms(1) have "bshape_rev (rev r) (rev (shape t)) = Some (rev r)"
    by (auto simp: fits_def broadcast_shapes_def)
  moreover from assms(2) have "i < prod_list (rev r)" by (simp add: numel_def prod_list.rev)
  ultimately have "bidx_rev (rev r) (rev (shape t)) i < prod_list (rev (shape t))"
    by (rule bidx_rev_less)
  with assms(1) show ?thesis by (simp add: fits_def wf_tensor_def numel_def prod_list.rev)
qed

lemma fits_same: "wf_tensor t \<Longrightarrow> shape t = r \<Longrightarrow> fits r t"
  by (auto simp: fits_def)

lemma fits_tensor_of [simp]: "fits r (tensor_of r f)"
  by (simp add: fits_def)

lemma fits_tmap [simp]: "fits r t \<Longrightarrow> fits r (tmap f t)"
  by (simp add: fits_def tmap_def wf_tensor_def)

lemma bget_tmap: "fits r t \<Longrightarrow> i < numel r \<Longrightarrow> bget r (tmap f t) i = f (bget r t i)"
  using fits_index [of r t i] by (simp add: bget_def tmap_def)

lemma bget_same: "shape t = r \<Longrightarrow> i < numel r \<Longrightarrow> bget r t i = vals t ! i"
  using bidx_rev_same [of i "rev r"] by (auto simp add: bget_def numel_def prod_list.rev)

lemma bget_tensor_of: "i < numel r \<Longrightarrow> bget r (tensor_of r g) i = g i"
  by (simp add: bget_same vals_tensor_of)

lemma bop_left:
  "fits (shape a) b \<Longrightarrow>
     bop f a b = Inr (tensor_of (shape a) (\<lambda>i. f (vals a ! i) (bget (shape a) b i)))"
  by (auto simp: bop_def fits_def bget_same intro: tensor_of_cong)

lemma bop_right:
  "fits (shape b) a \<Longrightarrow>
     bop f a b = Inr (tensor_of (shape b) (\<lambda>i. f (bget (shape b) a i) (vals b ! i)))"
  using broadcast_shapes_commute [of "shape a" "shape b"]
  by (auto simp: bop_def fits_def bget_same intro: tensor_of_cong)

text \<open>The stages of a conforming call, computed element by element.\<close>

lemma tensor_of_cong' [cong]:
  "s = s' \<Longrightarrow> (\<And>i. i < numel s' \<Longrightarrow> f i = g i) \<Longrightarrow> tensor_of s f = tensor_of s' g"
  by (simp add: tensor_of_def)

lemmas tensor_simps = tadd_def tsub_def tmul_def tdiv_def bop_left bop_right fits_same
  vals_tensor_of bget_tensor_of bget_same bget_tmap tmap_tensor_of

lemma mem_reset_fit:
  assumes "shape m = r" "fits r (threshold st)"
  shows "mem_reset st m = Inr (tensor_of r (\<lambda>i. if bget r (threshold st) i < vals m ! i then 1 else 0))"
  using assms by (simp add: mem_reset_def spike_grad_def tensor_simps)

lemma base_state_function_fit:
  assumes "shape (mem st) = r" "shape x = r" "wf_tensor x" "fits r (beta cfg)"
  shows "base_state_function cfg st x =
           Inr (tensor_of r (\<lambda>i. clamp01 (bget r (beta cfg) i) * vals (mem st) ! i + vals x ! i))"
  using assms by (simp add: base_state_function_def clamp_def tensor_simps)

lemma update_membrane_subtract:
  assumes "reset_mechanism_val cfg = Subtract" "shape (mem st) = r" "shape x = r" "wf_tensor x"
    "fits r (beta cfg)" "fits r (threshold st)"
  shows "update_membrane cfg st x =
     (Inr (), st\<lparr>reset := tensor_of r (\<lambda>i. if bget r (threshold st) i < vals (mem st) ! i then 1 else 0),
        mem := tensor_of r (\<lambda>i. clamp01 (bget r (beta cfg) i) * vals (mem st) ! i + vals x ! i
                 - (if bget r (threshold st) i < vals (mem st) ! i then 1 else 0) * bget r (threshold st) i)\<rparr>)"
  using assms
  by (simp add: update_membrane_def state_function_def base_sub_def mem_reset_fit
      base_state_function_fit tensor_simps)

lemma update_membrane_zero:
  assumes "reset_mechanism_val cfg = Zero" "shape (mem st) = r" "shape x = r" "wf_tensor x"
    "fits r (beta cfg)" "fits r (threshold st)"
  shows "update_membrane cfg st x =
     (Inr (), st\<lparr>reset := tensor_of r (\<lambda>i. if bget r (threshold st) i < vals (mem st) ! i then 1 else 0),
        mem := tensor_of r (\<lambda>i. clamp01 (bget r (beta cfg) i) *
                 ((1 - (if bget r (threshold st) i < vals (mem st) ! i then 1 else 0)) * vals (mem st) ! i)
                 + vals x ! i)\<rparr>)"
  using assms
  by (simp add: update_membrane_def state_function_def base_zero_def one_minus_def mem_reset_fit
      base_state_function_fit tensor_simps)

lemma update_membrane_none:
  assumes "reset_mechanism_val cfg = NoReset" "shape (mem st) = r" "shape x = r" "wf_tensor x"
    "fits r (beta cfg)" "fits r (threshold st)"
  shows "update_membrane cfg st x =
     (Inr (), st\<lparr>reset := tensor_of r (\<lambda>i. if bget r (threshold st) i < vals (mem st) ! i then 1 else 0),
        mem := tensor_of r (\<lambda>i. clamp01 (bget r (beta cfg) i) * vals (mem st) ! i + vals x ! i)\<rparr>)"
  using assms
  by (simp add: update_membrane_def state_function_def base_int_def mem_reset_fit
      base_state_function_fit tensor_simps)

lemma iadd_same_shape:
  "iadd a (tensor_of (shape a) n) = Inr (tensor_of (shape a) (\<lambda>i. vals a ! i + n i))"
  by (simp add: iadd_def tensor_simps)

lemma fire_spikes:
  assumes "fire cfg st m z = (Inr spk, st')"
  shows "leaky_fire cfg st m = Inr spk \<and>
         (if tany spk then st' = st\<lparr>threshold := tensor_of (shape (threshold st))
               (\<lambda>i. vals (threshold st) ! i + funkiness cfg * z i)\<rparr> \<and> 0 \<le> funkiness cfg
          else st' = st)"
  using assms
  by (auto simp: fire_def leaky_fire_def normal_def iadd_same_shape split: sum.splits if_splits)

lemma fire_error: "fire cfg st m z = (Inl e, st') \<Longrightarrow> st' = st"
  by (auto simp: fire_def split: sum.splits if_splits)


section \<open>What each part of the forward step leaves\<close>

lemma accept_mem_Inr:
  "accept_mem cfg st marg = (Inr u, st1) \<Longrightarrow>
     st1 = (case marg of None \<Rightarrow> st | Some m \<Rightarrow> st\<lparr>mem := m\<rparr>) \<and> \<not> (init_hidden cfg \<and> marg \<noteq> None)"
  by (auto simp: accept_mem_def Let_def split: if_splits)

lemma accept_mem_Inl:
  "accept_mem cfg st marg = (Inl e, st1) \<Longrightarrow>
     e = TypeError \<and> init_hidden cfg \<and> (\<exists>m. marg = Some m \<and> st1 = st\<lparr>mem := m\<rparr>)"
  by (auto simp: accept_mem_def Let_def split: if_splits option.splits)

lemma threshold_accept_mem: "accept_mem cfg st marg = (res, st1) \<Longrightarrow> threshold st1 = threshold st"
  by (auto simp: accept_mem_def Let_def split: if_splits option.splits)

lemma threshold_match_shape [simp]: "threshold (match_shape st x) = threshold st"
  by (simp add: match_shape_def)

lemma threshold_state_function:
  "state_function cfg st x = (res, st') \<Longrightarrow> threshold st' = threshold st \<and> reset st' = reset st"
  by (auto simp: state_function_def base_sub_def base_zero_def base_int_def
      split: reset_mechanism.splits sum.splits)

lemma threshold_update_membrane:
  "update_membrane cfg st x = (res, st') \<Longrightarrow> threshold st' = threshold st"
  by (auto simp: update_membrane_def split: sum.splits prod.splits dest: threshold_state_function)

lemma threshold_quantize_mem [simp]: "threshold (quantize_mem cfg st) = threshold st"
  by (simp add: quantize_mem_def)

lemma frame_immediate_reset:
  "immediate_reset cfg st spk tbs = (res, st') \<Longrightarrow> threshold st' = threshold st \<and> reset st' = reset st"
  by (auto simp: immediate_reset_def split: if_splits sum.splits reset_mechanism.splits)

lemma spike_Inr:
  "spike cfg st z = (Inr (spk, tbs), st') \<Longrightarrow>
     (inhibition cfg \<and> st' = st \<and> tbs = Unbound \<and>
        (\<exists>b. fire_inhibition st b (mem st) = Inr spk)) \<or>
     (\<not> inhibition cfg \<and> tbs = ThresholdObject \<and> fire cfg st (mem st) z = (Inr spk, st'))"
  by (auto simp: spike_def split: if_splits sum.splits prod.splits)

lemma spike_Inl: "spike cfg st z = (Inl e, st') \<Longrightarrow> st' = st"
  by (auto simp: spike_def split: if_splits sum.splits prod.splits dest: fire_error)

lemma forward_Inr:
  "forward cfg st x marg z = (Inr out, st') \<Longrightarrow>
     \<exists>st1 st3 st5 spk tbs.
       accept_mem cfg st marg = (Inr (), st1) \<and>
       update_membrane cfg (match_shape st1 x) x = (Inr (), st3) \<and>
       spike cfg (quantize_mem cfg st3) z = (Inr (spk, tbs), st5) \<and>
       immediate_reset cfg st5 spk tbs = (Inr (), st') \<and>
       out = returned cfg st' spk"
  by (auto simp: forward_def split: prod.splits sum.splits)

lemma fst_returned [simp]: "fst (returned cfg st spk) = spk"
  by (simp add: returned_def)

lemma zero_spikes_keep_threshold:
  assumes "forward cfg st x marg z = (Inr (spk, mo), st')" "\<not> tany spk"
  shows "threshold st' = threshold st"
proof -
  from forward_Inr [OF assms(1)] obtain st1 st3 st5 s tbs where
    a: "accept_mem cfg st marg = (Inr (), st1)" and
    u: "update_membrane cfg (match_shape st1 x) x = (Inr (), st3)" and
    s: "spike cfg (quantize_mem cfg st3) z = (Inr (s, tbs), st5)" and
    i: "immediate_reset cfg st5 s tbs = (Inr (), st')" and
    out: "(spk, mo) = returned cfg st' s"
    by blast
  from out have [simp]: "s = spk" by (metis fst_returned fst_conv)
  have "threshold st5 = threshold st3"
  proof (cases "inhibition cfg")
    case True
    with spike_Inr [OF s] show ?thesis by auto
  next
    case False
    with spike_Inr [OF s]
    have "fire cfg (quantize_mem cfg st3) (mem (quantize_mem cfg st3)) z = (Inr spk, st5)"
      by auto
    from fire_spikes [OF this] assms(2) show ?thesis by simp
  qed
  with frame_immediate_reset [OF i] threshold_update_membrane [OF u] threshold_accept_mem [OF a]
  show ?thesis by simp
qed

lemma bop_same_shape:
  "shape a = shape b \<Longrightarrow>
     bop f a b = Inr (tensor_of (shape b) (\<lambda>i. f (bget (shape b) a i) (bget (shape b) b i)))"
  by (simp add: bop_def)

lemma shape_spike_grad [simp]: "shape (spike_grad t) = shape t"
  by (simp add: spike_grad_def tmap_def)

lemma shape_winner_mask [simp]: "shape (winner_mask t) = shape t"
  by (simp add: winner_mask_def tmap_def split: list.splits)

lemma fire_inhibition_fit:
  assumes "shape m = r" "fits r (threshold st)"
  shows "\<exists>spk. fire_inhibition st b m = Inr spk \<and> shape spk = r"
  using assms by (simp add: fire_inhibition_def tsub_def tmul_def bop_left bop_same_shape)

lemma leaky_fire_fit:
  assumes "shape m = r" "wf_tensor m" "fits r (threshold st)" "fits r (graded_spikes_factor cfg)"
    "\<forall>t. wf_tensor t \<longrightarrow> wf_tensor (quant cfg t) \<and> shape (quant cfg t) = shape t"
  shows "leaky_fire cfg st m = Inr (tensor_of r (\<lambda>i.
           (if bget r (threshold st) i < vals (quant cfg m) ! i then 1 else 0) *
           bget r (graded_spikes_factor cfg) i))"
  using assms by (simp add: leaky_fire_def spike_grad_def tensor_simps)

lemma immediate_reset_fit:
  assumes "shape spk = r" "ready r st" "fits r (graded_spikes_factor cfg)"
    "tbs = ThresholdObject \<or> reset_mechanism_val cfg \<noteq> Subtract \<or> reset_delay cfg"
  shows "immediate_reset cfg st spk tbs =
     (Inr (),
      if reset_delay cfg then st
      else case reset_mechanism_val cfg of
        Subtract \<Rightarrow> st\<lparr>mem := tensor_of r (\<lambda>i. vals (mem st) ! i -
            (vals spk ! i / bget r (graded_spikes_factor cfg) i - vals (reset st) ! i) *
            bget r (threshold st) i)\<rparr>
      | Zero \<Rightarrow> st\<lparr>mem := tensor_of r (\<lambda>i. vals (mem st) ! i -
            (vals spk ! i / bget r (graded_spikes_factor cfg) i - vals (reset st) ! i) *
            vals (mem st) ! i)\<rparr>
      | NoReset \<Rightarrow> st)"
  using assms
  by (cases "reset_mechanism_val cfg"; cases tbs)
    (auto simp: immediate_reset_def read_local_def ready_def tensor_simps)

lemma immediate_reset_unbound:
  assumes "shape spk = r" "ready r st" "fits r (graded_spikes_factor cfg)"
    "reset_mechanism_val cfg = Subtract" "\<not> reset_delay cfg"
  shows "immediate_reset cfg st spk Unbound = (Inl UnboundLocalError, st)"
  using assms by (auto simp: immediate_reset_def read_local_def ready_def tensor_simps)

lemma immediate_reset_never_unbound:
  assumes "reset_mechanism_val cfg = Subtract" "\<not> reset_delay cfg"
  shows "immediate_reset cfg st spk Unbound \<noteq> (Inr u, st')"
  using assms by (auto simp: immediate_reset_def read_local_def split: sum.splits)

lemma fits_tensor_of_shape: "fits r t \<Longrightarrow> fits r (tensor_of (shape t) f)"
  by (simp add: fits_def)

lemma accept_mem_ok:
  "\<not> (init_hidden cfg \<and> mem_arg \<noteq> None) \<Longrightarrow>
     accept_mem cfg st mem_arg = (Inr (), case mem_arg of None \<Rightarrow> st | Some m \<Rightarrow> st\<lparr>mem := m\<rparr>)"
  by (auto simp: accept_mem_def)

lemma accept_mem_prepared:
  "accept_mem cfg st mem_arg = (Inr (), st1) \<Longrightarrow> match_shape st1 x = prepared st x mem_arg"
  by (drule accept_mem_Inr) (simp add: prepared_def)

lemma conforms_prepared:
  assumes "conforms cfg st x mem_arg"
  shows "shape (mem (prepared st x mem_arg)) = shape x"
    and "wf_tensor (mem (prepared st x mem_arg))"
    and "threshold (prepared st x mem_arg) = threshold st"
  using assms
  by (auto simp: conforms_def prepared_def match_shape_def zeros_like_def split: option.splits)

lemma conforms_start:
  assumes "conforms cfg st x marg" "accept_mem cfg st marg = (Inr (), st1)"
  shows "shape (mem (match_shape st1 x)) = shape x \<and> wf_tensor (mem (match_shape st1 x)) \<and>
         threshold (match_shape st1 x) = threshold st"
  using conforms_prepared [OF assms(1)] accept_mem_prepared [OF assms(2)] by simp

lemma update_ready:
  assumes "shape (mem st) = r" "wf_tensor (mem st)" "shape x = r" "wf_tensor x"
    "fits r (beta cfg)" "fits r (threshold st)"
  shows "\<exists>st'. update_membrane cfg st x = (Inr (), st') \<and> ready r st' \<and> threshold st' = threshold st"
proof (cases "reset_mechanism_val cfg")
  case Subtract
  from update_membrane_subtract [OF this assms(1,3,4,5,6)] assms(6) show ?thesis
    by (simp add: ready_def)
next
  case Zero
  from update_membrane_zero [OF this assms(1,3,4,5,6)] assms(6) show ?thesis
    by (simp add: ready_def)
next
  case NoReset
  from update_membrane_none [OF this assms(1,3,4,5,6)] assms(6) show ?thesis
    by (simp add: ready_def)
qed

lemma quantize_ready:
  assumes "ready r st" "\<forall>t. wf_tensor t \<longrightarrow> wf_tensor (quant cfg t) \<and> shape (quant cfg t) = shape t"
  shows "ready r (quantize_mem cfg st)"
  using assms by (simp add: ready_def quantize_mem_def)

lemma spike_ready:
  assumes "ready r st" "fits r (graded_spikes_factor cfg)"
    "\<forall>t. wf_tensor t \<longrightarrow> wf_tensor (quant cfg t) \<and> shape (quant cfg t) = shape t"
    "spike cfg st z = (Inr (spk, tbs), st')"
  shows "shape spk = r \<and> ready r st' \<and> mem st' = mem st \<and> reset st' = reset st"
proof (cases "inhibition cfg")
  case True
  with spike_Inr [OF assms(4)] obtain b where "st' = st" "fire_inhibition st b (mem st) = Inr spk"
    by auto
  with fire_inhibition_fit [of "mem st" r st b] assms(1) show ?thesis
    by (auto simp: ready_def)
next
  case False
  with spike_Inr [OF assms(4)] have f: "fire cfg st (mem st) z = (Inr spk, st')"
    by auto
  from fire_spikes [OF f] leaky_fire_fit [of "mem st" r st cfg] assms(1,2,3)
  have "shape spk = r" by (auto simp: ready_def)
  moreover from fire_spikes [OF f] assms(1)
  have "ready r st' \<and> mem st' = mem st \<and> reset st' = reset st"
    by (auto simp: ready_def fits_tensor_of_shape split: if_splits)
  ultimately show ?thesis by simp
qed

lemma forward_shapes:
  assumes "conforms cfg st x marg" "forward cfg st x marg z = (Inr out, st')"
  shows "shape (mem st') = shape x"
proof -
  from forward_Inr [OF assms(2)] obtain st1 st3 st5 spk tbs where
    a: "accept_mem cfg st marg = (Inr (), st1)" and
    u: "update_membrane cfg (match_shape st1 x) x = (Inr (), st3)" and
    s: "spike cfg (quantize_mem cfg st3) z = (Inr (spk, tbs), st5)" and
    i: "immediate_reset cfg st5 spk tbs = (Inr (), st')"
    by blast
  let ?r = "shape x"
  from assms(1) have c: "wf_tensor x" "fits ?r (beta cfg)" "fits ?r (threshold st)"
    "fits ?r (graded_spikes_factor cfg)"
    and q: "\<forall>t. wf_tensor t \<longrightarrow> wf_tensor (quant cfg t) \<and> shape (quant cfg t) = shape t"
    by (auto simp: conforms_def)
  from conforms_start [OF assms(1) a] update_ready [of "match_shape st1 x" ?r x cfg] c u
  have "ready ?r st3" by auto
  from spike_ready [OF quantize_ready [OF this q] c(4) q s]
  have sp: "shape spk = ?r" and r5: "ready ?r st5" by auto
  have "tbs = ThresholdObject \<or> reset_mechanism_val cfg \<noteq> Subtract \<or> reset_delay cfg"
  proof (rule ccontr)
    assume "\<not> ?thesis"
    then have "tbs = Unbound" "reset_mechanism_val cfg = Subtract" "\<not> reset_delay cfg"
      by (auto intro: local_ref.exhaust)
    with immediate_reset_never_unbound [of cfg st5 spk "()" st'] i show False by simp
  qed
  from immediate_reset_fit [OF sp r5 c(4) this] i r5 show ?thesis
    by (auto simp: ready_def split: if_splits reset_mechanism.splits)
qed

lemma forward_Inl:
  "forward cfg st x marg z = (Inl e, st') \<Longrightarrow>
     accept_mem cfg st marg = (Inl e, st') \<or>
     (\<exists>st1. accept_mem cfg st marg = (Inr (), st1) \<and>
        (update_membrane cfg (match_shape st1 x) x = (Inl e, st') \<or>
         (\<exists>st3. update_membrane cfg (match_shape st1 x) x = (Inr (), st3) \<and>
            (spike cfg (quantize_mem cfg st3) z = (Inl e, st') \<or>
             (\<exists>spk tbs st5. spike cfg (quantize_mem cfg st3) z = (Inr (spk, tbs), st5) \<and>
                immediate_reset cfg st5 spk tbs = (Inl e, st'))))))"
  by (auto simp: forward_def split: prod.splits sum.splits)

lemma failed_call_keeps_threshold:
  assumes "conforms cfg st x marg" "forward cfg st x marg z = (Inl e, st')"
  shows "threshold st' = threshold st"
proof -
  let ?r = "shape x"
  from assms(1) have c: "wf_tensor x" "fits ?r (beta cfg)" "fits ?r (threshold st)"
    "fits ?r (graded_spikes_factor cfg)"
    and q: "\<forall>t. wf_tensor t \<longrightarrow> wf_tensor (quant cfg t) \<and> shape (quant cfg t) = shape t"
    by (auto simp: conforms_def)
  from forward_Inl [OF assms(2)] consider
    (acc) "accept_mem cfg st marg = (Inl e, st')"
  | (upd) st1 where "accept_mem cfg st marg = (Inr (), st1)"
      "update_membrane cfg (match_shape st1 x) x = (Inl e, st')"
  | (spk) st1 st3 where "accept_mem cfg st marg = (Inr (), st1)"
      "update_membrane cfg (match_shape st1 x) x = (Inr (), st3)"
      "spike cfg (quantize_mem cfg st3) z = (Inl e, st')"
  | (imm) st1 st3 spk tbs st5 where "accept_mem cfg st marg = (Inr (), st1)"
      "update_membrane cfg (match_shape st1 x) x = (Inr (), st3)"
      "spike cfg (quantize_mem cfg st3) z = (Inr (spk, tbs), st5)"
      "immediate_reset cfg st5 spk tbs = (Inl e, st')"
    by blast
  then show ?thesis
  proof cases
    case acc
    then show ?thesis by (rule threshold_accept_mem)
  next
    case upd
    from threshold_update_membrane [OF upd(2)] threshold_accept_mem [OF upd(1)]
    show ?thesis by simp
  next
    case spk
    from spike_Inl [OF spk(3)] threshold_update_membrane [OF spk(2)] threshold_accept_mem [OF spk(1)]
    show ?thesis by simp
  next
    case imm
    from conforms_start [OF assms(1) imm(1)] update_ready [of "match_shape st1 x" ?r x cfg] c imm(2)
    have "ready ?r st3" by auto
    from spike_ready [OF quantize_ready [OF this q] c(4) q imm(3)]
    have sp: "shape spk = ?r" and r5: "ready ?r st5" by auto
    have "inhibition cfg"
    proof (rule ccontr)
      assume "\<not> inhibition cfg"
      with spike_Inr [OF imm(3)] have "tbs = ThresholdObject" by auto
      with immediate_reset_fit [OF sp r5 c(4)] imm(4) show False by simp
    qed
    with spike_Inr [OF imm(3)] have "st5 = quantize_mem cfg st3" by auto
    with frame_immediate_reset [OF imm(4)] threshold_update_membrane [OF imm(2)]
      threshold_accept_mem [OF imm(1)]
    show ?thesis by simp
  qed
qed

lemma mismatch_restarts_from_zeros:
  assumes "shape (case mem_arg of None \<Rightarrow> mem st | Some m \<Rightarrow> m) \<noteq> shape x"
    "\<not> (init_hidden cfg \<and> mem_arg \<noteq> None)"
  shows "forward cfg st x mem_arg z = forward cfg (st\<lparr>mem := zeros_like x\<rparr>) x None z"
  using assms
  by (auto simp: forward_def accept_mem_def match_shape_def zeros_like_def split: option.splits)

section \<open>Funkiness 0 and the base neuron\<close>


lemma fire_funkiness_zero:
  assumes "funkiness cfg = 0" "wf_tensor (threshold st)"
  shows "fire cfg st m z = (leaky_fire cfg st m, st)"
proof -
  have "iadd (threshold st) (tensor_of (shape (threshold st)) (\<lambda>i. 0 + 0 * z i)) = Inr (threshold st)"
    using assms(2) by (simp add: iadd_same_shape tensor_of_vals)
  with assms(1) show ?thesis
    by (auto simp: fire_def leaky_fire_def normal_def split: sum.splits)
qed

lemma spike_funkiness_zero:
  assumes "funkiness cfg = 0" "wf_tensor (threshold st)"
  shows "spike cfg st z =
     (case leaky_spike cfg st of
        (Inl e, s) \<Rightarrow> (Inl e, s)
      | (Inr spk, s) \<Rightarrow> (Inr (spk, if inhibition cfg then Unbound else ThresholdObject), s))"
  using fire_funkiness_zero [OF assms]
  by (auto simp: spike_def leaky_spike_def split: sum.splits)

lemma immediate_reset_local:
  "reset_delay cfg \<or> reset_mechanism_val cfg \<noteq> Subtract \<Longrightarrow>
     immediate_reset cfg st spk Unbound = immediate_reset cfg st spk ThresholdObject"
  by (cases "reset_mechanism_val cfg") (auto simp: immediate_reset_def split: sum.splits)

lemma funkiness_zero_is_leaky:
  assumes "funkiness cfg = 0" "wf_tensor (threshold st)"
    "\<not> (inhibition cfg \<and> \<not> reset_delay cfg \<and> reset_mechanism_val cfg = Subtract)"
  shows "forward cfg st x mem_arg z = leaky_forward cfg st x mem_arg"
proof (cases "accept_mem cfg st mem_arg")
  case (Pair ra st1)
  note a = this
  show ?thesis
  proof (cases ra)
    case (Inl e)
    with a show ?thesis by (simp add: forward_def leaky_forward_def)
  next
    case (Inr u1)
    note ra = this
    show ?thesis
    proof (cases "update_membrane cfg (match_shape st1 x) x")
      case (Pair ru st3)
      note u = this
      show ?thesis
      proof (cases ru)
        case (Inl e)
        with a ra u show ?thesis by (simp add: forward_def leaky_forward_def)
      next
        case (Inr u3)
        from threshold_update_membrane [OF u] threshold_accept_mem [OF a] assms(2)
        have "wf_tensor (threshold (quantize_mem cfg st3))" by simp
        note sp = spike_funkiness_zero [OF assms(1) this, of z]
        show ?thesis
        proof (cases "inhibition cfg")
          case True
          with assms(3) have "reset_delay cfg \<or> reset_mechanism_val cfg \<noteq> Subtract" by blast
          note immediate_reset_local [OF this]
          with a ra u Inr sp True show ?thesis
            by (simp add: forward_def leaky_forward_def split: prod.splits sum.splits)
        next
          case False
          with a ra u Inr sp show ?thesis
            by (simp add: forward_def leaky_forward_def split: prod.splits sum.splits)
        qed
      qed
    qed
  qed
qed

lemma threshold_leaky_forward:
  "leaky_forward cfg st x mem_arg = (res, st') \<Longrightarrow> threshold st' = threshold st"
  by (auto simp: leaky_forward_def leaky_spike_def split: prod.splits sum.splits if_splits
      dest!: threshold_accept_mem threshold_update_membrane frame_immediate_reset)

lemma run_funkiness_zero:
  assumes "funkiness cfg = 0"
    "\<not> (inhibition cfg \<and> \<not> reset_delay cfg \<and> reset_mechanism_val cfg = Subtract)"
  shows "wf_tensor (threshold st) \<Longrightarrow>
         run cfg st calls = leaky_run cfg st calls \<and> threshold (snd (run cfg st calls)) = threshold st"
proof (induction calls arbitrary: st)
  case Nil
  then show ?case by simp
next
  case (Cons c calls)
  obtain x mem_arg z where c: "c = (x, mem_arg, z)" by (cases c) auto
  obtain res st' where l: "leaky_forward cfg st x mem_arg = (res, st')"
    by (cases "leaky_forward cfg st x mem_arg") auto
  from funkiness_zero_is_leaky [OF assms(1) Cons.prems assms(2)] l
  have f: "forward cfg st x mem_arg z = (res, st')" by simp
  from threshold_leaky_forward [OF l] have t: "threshold st' = threshold st" .
  show ?case
  proof (cases res)
    case (Inl e)
    with c l f t show ?thesis by simp
  next
    case (Inr out)
    from Cons.prems t have "wf_tensor (threshold st')" by simp
    from Cons.IH [OF this] c l f t Inr show ?thesis
      by (auto split: prod.splits)
  qed
qed

section \<open>The immediate reset after a perturbation\<close>


lemma immediate_subtract_reads_stored_threshold:
  assumes "\<not> inhibition cfg" "\<not> reset_delay cfg" "reset_mechanism_val cfg = Subtract"
    "conforms cfg st x mem_arg" "forward cfg st x mem_arg z = (Inr out, st')"
  shows "\<exists>st3. update_membrane cfg
             (prepared st x mem_arg) x = (Inr (), st3) \<and>
           mem st' = tensor_of (shape x) (\<lambda>i. vals (quant cfg (mem st3)) ! i -
             (vals (fst out) ! i / bget (shape x) (graded_spikes_factor cfg) i - vals (reset st3) ! i) *
             bget (shape x) (threshold st') i)"
proof -
  let ?st2 = "prepared st x mem_arg"
  let ?r = "shape x"
  from forward_Inr [OF assms(5)] obtain st1 st3 st5 spk tbs where
    a: "accept_mem cfg st mem_arg = (Inr (), st1)" and
    u: "update_membrane cfg (match_shape st1 x) x = (Inr (), st3)" and
    s: "spike cfg (quantize_mem cfg st3) z = (Inr (spk, tbs), st5)" and
    i: "immediate_reset cfg st5 spk tbs = (Inr (), st')" and
    out: "out = returned cfg st' spk"
    by blast
  from accept_mem_prepared [OF a] have st1: "match_shape st1 x = ?st2" .
  from assms(4) have c: "wf_tensor x" "fits ?r (beta cfg)" "fits ?r (threshold st)"
    "fits ?r (graded_spikes_factor cfg)"
    and q: "\<forall>t. wf_tensor t \<longrightarrow> wf_tensor (quant cfg t) \<and> shape (quant cfg t) = shape t"
    by (auto simp: conforms_def)
  from conforms_prepared [OF assms(4)] update_ready [of ?st2 ?r x cfg] c u st1
  have "ready ?r st3" by auto
  from spike_ready [OF quantize_ready [OF this q] c(4) q s]
  have sp: "shape spk = ?r" and r5: "ready ?r st5" and
    m5: "mem st5 = quant cfg (mem st3)" and rs5: "reset st5 = reset st3"
    by (auto simp: quantize_mem_def)
  from spike_Inr [OF s] assms(1) have "tbs = ThresholdObject" by auto
  with immediate_reset_fit [OF sp r5 c(4)] i assms(2,3)
  have "st' = st5\<lparr>mem := tensor_of ?r (\<lambda>i. vals (mem st5) ! i -
            (vals spk ! i / bget ?r (graded_spikes_factor cfg) i - vals (reset st5) ! i) *
            bget ?r (threshold st5) i)\<rparr>"
    by simp
  with m5 rs5 out u st1 show ?thesis by auto
qed

section \<open>Broadcasting in nested operations\<close>

lemma bshape_rev_intoI:
  "e = d \<or> e = 1 \<Longrightarrow> bshape_rev r s = Some r \<Longrightarrow> bshape_rev (d # r) (e # s) = Some (d # r)"
  by auto

lemma bshape_rev_operands:
  "bshape_rev a b = Some r \<Longrightarrow> bshape_rev r a = Some r \<and> bshape_rev r b = Some r"
proof (induction a b arbitrary: r rule: bshape_rev.induct)
  case (1 ys)
  then show ?case by (simp add: bshape_rev_same)
next
  case (2 x xs)
  then show ?case by (auto simp: bshape_rev_same)
next
  case (3 x xs y ys)
  show ?case
  proof (cases "x = y \<or> y = 1")
    case True
    with "3.prems" obtain r' where r: "r = x # r'" "bshape_rev xs ys = Some r'" by auto
    from "3.IH"(1) [OF True r(2)] True r(1) show ?thesis by auto
  next
    case False
    with "3.prems" have x: "x = 1" by (auto split: if_splits)
    with False "3.prems" obtain r' where r: "r = y # r'" "bshape_rev xs ys = Some r'" by auto
    from "3.IH"(2) [OF False x r(2)] False x r(1) show ?thesis by auto
  qed
qed

lemma bshape_rev_trans:
  "bshape_rev r2 r1 = Some r2 \<Longrightarrow> bshape_rev r1 s = Some r1 \<Longrightarrow> bshape_rev r2 s = Some r2"
proof (induction r2 arbitrary: r1 s)
  case Nil
  then show ?case by (cases r1; cases s) auto
next
  case (Cons d2 r2)
  show ?case
  proof (cases s)
    case Nil
    then show ?thesis by simp
  next
    case (Cons e s')
    with Cons.prems(2) obtain d1 r1' where r1: "r1 = d1 # r1'" by (cases r1) auto
    from Cons.prems(1) r1 have a: "(d1 = d2 \<or> d1 = 1)" "bshape_rev r2 r1' = Some r2"
      using bshape_rev_into [of d2 r2 d1 r1'] by simp_all
    from Cons.prems(2) r1 Cons have b: "(e = d1 \<or> e = 1)" "bshape_rev r1' s' = Some r1'"
      using bshape_rev_into [of d1 r1' e s'] by simp_all
    from a(1) b(1) have "e = d2 \<or> e = 1" by auto
    from bshape_rev_intoI [OF this Cons.IH [OF a(2) b(2)]] Cons show ?thesis by simp
  qed
qed

lemma bidx_rev_compose:
  "bshape_rev r2 r1 = Some r2 \<Longrightarrow> bshape_rev r1 s = Some r1 \<Longrightarrow> i < prod_list r2 \<Longrightarrow>
     bidx_rev r1 s (bidx_rev r2 r1 i) = bidx_rev r2 s i"
proof (induction r2 arbitrary: r1 s i)
  case Nil
  then show ?case by (cases r1; cases s) auto
next
  case (Cons d2 r2)
  show ?case
  proof (cases s)
    case Nil
    then show ?thesis by simp
  next
    case (Cons e s')
    with Cons.prems(2) obtain d1 r1' where r1: "r1 = d1 # r1'" by (cases r1) auto
    from Cons.prems(1) r1 have a: "(d1 = d2 \<or> d1 = 1)" "bshape_rev r2 r1' = Some r2"
      using bshape_rev_into [of d2 r2 d1 r1'] by simp_all
    from Cons.prems(2) r1 Cons have b: "(e = d1 \<or> e = 1)" "bshape_rev r1' s' = Some r1'"
      using bshape_rev_into [of d1 r1' e s'] by simp_all
    from Cons.prems(3) have d2: "0 < d2" by (cases d2) auto
    with Cons.prems(3) have lt: "i div d2 < prod_list r2"
      by (simp add: less_mult_imp_div_less mult.commute)
    note IH = Cons.IH [OF a(2) b(2) lt]
    let ?c = "if d1 = 1 then 0 else i mod d2"
    let ?j = "bidx_rev r2 r1' (i div d2)"
    have d1: "0 < d1" using a(1) d2 by auto
    have c: "?c < d1" using a(1) d2 by auto
    have m: "(?c + d1 * ?j) mod d1 = ?c" using c by simp
    have dv: "(?c + d1 * ?j) div d1 = ?j" using c d1 by simp
    have "bidx_rev r1 s (bidx_rev (d2 # r2) r1 i) =
          (if e = 1 then 0 else (?c + d1 * ?j) mod d1) + e * bidx_rev r1' s' ((?c + d1 * ?j) div d1)"
      by (simp add: r1 Cons)
    also have "\<dots> = (if e = 1 then 0 else ?c) + e * bidx_rev r2 s' (i div d2)"
      by (simp only: m dv IH)
    also have "\<dots> = (if e = 1 then 0 else i mod d2) + e * bidx_rev r2 s' (i div d2)"
      using b(1) by auto
    finally show ?thesis by (simp add: Cons)
  qed
qed

lemma into_rev: "into r t \<longleftrightarrow> bshape_rev (rev r) (rev (shape t)) = Some (rev r)"
  by (auto simp: into_def broadcast_shapes_def)

lemma into_self [simp]: "into (shape t) t"
  by (simp add: into_def)

lemma into_tmap [simp]: "into r (tmap f t) = into r t"
  by (simp add: into_def tmap_def)

lemma fits_into: "fits r t \<longleftrightarrow> wf_tensor t \<and> into r t"
  by (simp add: fits_def into_def)

lemma bop_Inr_shape:
  "bop f a b = Inr c \<Longrightarrow> broadcast_shapes (shape a) (shape b) = Some (shape c)"
  by (auto simp: bop_def split: option.splits)

lemma wf_bop: "bop f a b = Inr c \<Longrightarrow> wf_tensor c"
  by (auto simp: bop_def split: option.splits)

lemma into_bop:
  assumes "bop f a b = Inr c" "into r c"
  shows "into r a \<and> into r b"
proof -
  from bop_Inr_shape [OF assms(1)]
  have "bshape_rev (rev (shape a)) (rev (shape b)) = Some (rev (shape c))"
    by (auto simp: broadcast_shapes_def rev_swap)
  from bshape_rev_operands [OF this] assms(2) show ?thesis
    by (auto simp: into_rev intro: bshape_rev_trans)
qed

lemma bget_compose:
  assumes "into r c" "into (shape c) a" "i < numel r"
  shows "vals a ! bidx_rev (rev (shape c)) (rev (shape a)) (bidx_rev (rev r) (rev (shape c)) i) = bget r a i"
  using assms bidx_rev_compose [of "rev r" "rev (shape c)" "rev (shape a)" i]
  by (simp add: into_rev bget_def numel_def)

lemma bget_bop:
  assumes "bop f a b = Inr c" "into r c" "i < numel r"
  shows "bget r c i = f (bget r a i) (bget r b i)"
proof -
  let ?k = "bidx_rev (rev r) (rev (shape c)) i"
  from assms(2,3) have k: "?k < numel (shape c)"
    using bidx_rev_less [of "rev r" "rev (shape c)" i]
    by (simp add: into_rev numel_def)
  from assms(1) have c: "c = tensor_of (shape c) (\<lambda>j. f (bget (shape c) a j) (bget (shape c) b j))"
    by (auto simp: bop_def split: option.splits)
  from into_bop [OF assms(1) into_self] have ab: "into (shape c) a" "into (shape c) b"
    by simp_all
  have "bget r c i = vals c ! ?k" by (simp add: bget_def)
  also have "\<dots> = f (bget (shape c) a ?k) (bget (shape c) b ?k)"
    by (subst c) (simp add: vals_tensor_of k)
  also have "bget (shape c) a ?k = bget r a i"
    using bget_compose [OF assms(2) ab(1) assms(3)] by (simp add: bget_def)
  also have "bget (shape c) b ?k = bget r b i"
    using bget_compose [OF assms(2) ab(2) assms(3)] by (simp add: bget_def)
  finally show ?thesis .
qed

lemma bget_tmap_into:
  "wf_tensor t \<Longrightarrow> into r t \<Longrightarrow> i < numel r \<Longrightarrow> bget r (tmap f t) i = f (bget r t i)"
  by (rule bget_tmap) (simp_all add: fits_into)

lemma wf_tmap [simp]: "wf_tensor (tmap f t) = wf_tensor t"
  by (simp add: wf_tensor_def tmap_def)

lemma shape_tmap [simp]: "shape (tmap f t) = shape t"
  by (simp add: tmap_def)

section \<open>The state functions, element by element\<close>

lemma tensor_eq_bget: "wf_tensor t \<Longrightarrow> t = tensor_of (shape t) (\<lambda>i. bget (shape t) t i)"
  using tensor_of_vals [of t] by (simp add: bget_same cong: tensor_of_cong')

lemma wf_mem_reset: "mem_reset st m = Inr R \<Longrightarrow> wf_tensor R"
  by (auto simp: mem_reset_def spike_grad_def tsub_def split: sum.splits dest: wf_bop)

lemma bget_mem_reset:
  assumes "mem_reset st m = Inr R" "into r R" "i < numel r"
  shows "bget r R i = (if bget r (threshold st) i < bget r m i then 1 else 0)"
proof -
  from assms(1) obtain ms where ms: "bop (-) m (threshold st) = Inr ms" and
    R: "R = tmap (\<lambda>v. if 0 < v then 1 else 0) ms"
    by (auto simp: mem_reset_def spike_grad_def tsub_def split: sum.splits)
  from assms(2) R have i: "into r ms" by simp
  from bget_tmap_into [OF wf_bop [OF ms] i assms(3)] bget_bop [OF ms i assms(3)] R
  show ?thesis by simp
qed

lemma bget_base_state_function:
  assumes "base_state_function cfg st x = Inr b" "wf_tensor (beta cfg)" "into r b" "i < numel r"
  shows "bget r b i = clamp01 (bget r (beta cfg) i) * bget r (mem st) i + bget r x i"
proof -
  from assms(1) obtain bm where bm: "bop (*) (tmap clamp01 (beta cfg)) (mem st) = Inr bm" and
    b: "bop (+) bm x = Inr b"
    by (auto simp: base_state_function_def clamp_def tmul_def tadd_def split: sum.splits)
  from into_bop [OF b assms(3)] have i1: "into r bm" by simp
  from into_bop [OF bm i1] have i2: "into r (beta cfg)" by simp
  from bget_bop [OF b assms(3,4)] bget_bop [OF bm i1 assms(4)]
    bget_tmap_into [OF assms(2) i2 assms(4)]
  show ?thesis by simp
qed

lemma wf_base_state_function: "base_state_function cfg st x = Inr b \<Longrightarrow> wf_tensor b"
  by (auto simp: base_state_function_def tadd_def split: sum.splits dest: wf_bop)

lemma update_membrane_subtract_elements:
  assumes "reset_mechanism_val cfg = Subtract" "wf_tensor (beta cfg)"
    "update_membrane cfg st x = (Inr (), st')"
  shows "mem_reset st (mem st) = Inr (reset st')"
    and "mem st' = spec_subtract (shape (mem st')) (beta cfg) (mem st) x (reset st') (threshold st)"
    and "into (shape (mem st')) (reset st')"
    and "threshold st' = threshold st"
proof -
  from assms(1,3) obtain R b rt M where
    R: "mem_reset st (mem st) = Inr R" and
    b: "base_state_function cfg (st\<lparr>reset := R\<rparr>) x = Inr b" and
    rt: "bop (*) R (threshold st) = Inr rt" and
    M: "bop (-) b rt = Inr M" and
    st': "st' = st\<lparr>reset := R, mem := M\<rparr>"
    by (auto simp: update_membrane_def state_function_def base_sub_def tmul_def tsub_def
        split: sum.splits prod.splits)
  let ?r = "shape M"
  from into_bop [OF M into_self] have ib: "into ?r b" and irt: "into ?r rt" by simp_all
  from into_bop [OF rt irt] have iR: "into ?r R" by simp
  have "M = tensor_of ?r (\<lambda>i. bget ?r M i)"
    by (rule tensor_eq_bget) (rule wf_bop [OF M])
  also have "\<dots> = spec_subtract ?r (beta cfg) (mem st) x R (threshold st)"
    unfolding spec_subtract_def
  proof (rule tensor_of_cong)
    fix i assume i: "i < numel ?r"
    from bget_bop [OF M into_self i] bget_base_state_function [OF b assms(2) ib i]
      bget_bop [OF rt irt i]
    show "bget ?r M i = clamp01 (bget ?r (beta cfg) i) * bget ?r (mem st) i + bget ?r x i
        - bget ?r R i * bget ?r (threshold st) i"
      by simp
  qed
  finally have "M = spec_subtract ?r (beta cfg) (mem st) x R (threshold st)" .
  with R iR st' show "mem_reset st (mem st) = Inr (reset st')"
    and "mem st' = spec_subtract (shape (mem st')) (beta cfg) (mem st) x (reset st') (threshold st)"
    and "into (shape (mem st')) (reset st')"
    and "threshold st' = threshold st"
    by simp_all
qed

lemma update_membrane_zero_elements:
  assumes "reset_mechanism_val cfg = Zero" "wf_tensor (beta cfg)"
    "update_membrane cfg st x = (Inr (), st')"
  shows "mem_reset st (mem st) = Inr (reset st')"
    and "\<exists>Z. base_zero cfg (st\<lparr>reset := reset st'\<rparr>) x = (Inr (mem st'), st\<lparr>reset := reset st', mem := Z\<rparr>) \<and>
           Z = spec_zeroed (shape Z) (reset st') (mem st) \<and>
           mem st' = spec_integrate (shape (mem st')) (beta cfg) Z x \<and>
           into (shape (mem st')) Z \<and> into (shape (mem st')) (reset st') \<and>
           (\<forall>i. i < numel (shape (mem st')) \<longrightarrow>
              bget (shape (mem st')) Z i =
                (1 - bget (shape (mem st')) (reset st') i) * bget (shape (mem st')) (mem st) i)"
proof -
  from assms(1,3) obtain R Z b where
    R: "mem_reset st (mem st) = Inr R" and
    Z: "bop (*) (tmap (\<lambda>v. 1 - v) R) (mem st) = Inr Z" and
    b: "base_state_function cfg (st\<lparr>reset := R, mem := Z\<rparr>) x = Inr b" and
    st': "st' = st\<lparr>reset := R, mem := b\<rparr>"
    by (auto simp: update_membrane_def state_function_def base_zero_def one_minus_def tmul_def
        split: sum.splits prod.splits)
  let ?r = "shape b"
  have wR: "wf_tensor R" by (rule wf_mem_reset [OF R])
  have zel: "bget r Z i = (1 - bget r R i) * bget r (mem st) i" if "into r Z" "i < numel r" for r i
  proof -
    from into_bop [OF Z that(1)] have "into r R" by simp
    from bget_bop [OF Z that] bget_tmap_into [OF wR this that(2)] show ?thesis by simp
  qed
  have "Z = tensor_of (shape Z) (\<lambda>i. bget (shape Z) Z i)"
    by (rule tensor_eq_bget) (rule wf_bop [OF Z])
  also have "\<dots> = spec_zeroed (shape Z) R (mem st)"
    unfolding spec_zeroed_def by (rule tensor_of_cong) (simp add: zel)
  finally have Zs: "Z = spec_zeroed (shape Z) R (mem st)" .
  from b obtain bm where bm: "bop (*) (tmap clamp01 (beta cfg)) Z = Inr bm" and
    b': "bop (+) bm x = Inr b"
    by (auto simp: base_state_function_def clamp_def tmul_def tadd_def split: sum.splits)
  from into_bop [OF b' into_self] have "into ?r bm" by simp
  from into_bop [OF bm this] have iZ: "into ?r Z" by simp
  from into_bop [OF Z iZ] have iR: "into ?r R" by simp
  have "b = tensor_of ?r (\<lambda>i. bget ?r b i)"
    by (rule tensor_eq_bget) (rule wf_base_state_function [OF b])
  also have "\<dots> = spec_integrate ?r (beta cfg) Z x"
    unfolding spec_integrate_def
    by (rule tensor_of_cong) (use bget_base_state_function [OF b assms(2) into_self] in simp)
  finally have bs: "b = spec_integrate ?r (beta cfg) Z x" .
  have bz: "base_zero cfg (st\<lparr>reset := R\<rparr>) x = (Inr b, st\<lparr>reset := R, mem := Z\<rparr>)"
    using Z b by (simp add: base_zero_def one_minus_def tmul_def)
  from R st' show "mem_reset st (mem st) = Inr (reset st')" by simp
  from bz Zs bs iZ iR zel st'
  show "\<exists>Z. base_zero cfg (st\<lparr>reset := reset st'\<rparr>) x = (Inr (mem st'), st\<lparr>reset := reset st', mem := Z\<rparr>) \<and>
           Z = spec_zeroed (shape Z) (reset st') (mem st) \<and>
           mem st' = spec_integrate (shape (mem st')) (beta cfg) Z x \<and>
           into (shape (mem st')) Z \<and> into (shape (mem st')) (reset st') \<and>
           (\<forall>i. i < numel (shape (mem st')) \<longrightarrow>
              bget (shape (mem st')) Z i =
                (1 - bget (shape (mem st')) (reset st') i) * bget (shape (mem st')) (mem st) i)"
    by (intro exI [of _ Z]) simp
qed

lemma spike_frame:
  "spike cfg st z = (Inr (spk, tbs), st') \<Longrightarrow> mem st' = mem st \<and> reset st' = reset st"
  by (drule spike_Inr) (auto dest!: fire_spikes split: if_splits)

lemma forward_delayed_updated:
  assumes "reset_delay cfg" "forward cfg st x mem_arg z = (Inr out, st')"
  shows "update_membrane cfg (prepared st x mem_arg) x = (Inr (), updated cfg st x mem_arg)"
    and "mem st' = quant cfg (mem (updated cfg st x mem_arg))"
    and "reset st' = reset (updated cfg st x mem_arg)"
    and "snd out = (if output_flag cfg \<or> \<not> init_hidden cfg then Some (mem st') else None)"
proof -
  from forward_Inr [OF assms(2)] obtain st1 st3 st5 spk tbs where
    a: "accept_mem cfg st mem_arg = (Inr (), st1)" and
    u: "update_membrane cfg (match_shape st1 x) x = (Inr (), st3)" and
    s: "spike cfg (quantize_mem cfg st3) z = (Inr (spk, tbs), st5)" and
    i: "immediate_reset cfg st5 spk tbs = (Inr (), st')" and
    o: "out = returned cfg st' spk"
    by blast
  from u accept_mem_prepared [OF a] have u': "update_membrane cfg (prepared st x mem_arg) x = (Inr (), st3)"
    by simp
  then have st3: "updated cfg st x mem_arg = st3" by (simp add: updated_def)
  from i assms(1) have "st' = st5" by (simp add: immediate_reset_def)
  with spike_frame [OF s] st3
  show "mem st' = quant cfg (mem (updated cfg st x mem_arg))"
    and "reset st' = reset (updated cfg st x mem_arg)"
    by (simp_all add: quantize_mem_def)
  from u' st3 show "update_membrane cfg (prepared st x mem_arg) x = (Inr (), updated cfg st x mem_arg)"
    by simp
  from o show "snd out = (if output_flag cfg \<or> \<not> init_hidden cfg then Some (mem st') else None)"
    by (auto simp: returned_def)
qed

lemma threshold_changed_by_fire:
  assumes "forward cfg st x mem_arg z = (res, st')" "threshold st' \<noteq> threshold st"
  shows "\<not> inhibition cfg"
    and "\<exists>spk. fst (fire cfg (quantize_mem cfg (updated cfg st x mem_arg))
                    (mem (quantize_mem cfg (updated cfg st x mem_arg))) z) = Inr spk \<and> tany spk"
proof -
  let ?s = "quantize_mem cfg (updated cfg st x mem_arg)"
  obtain ra st1 where a: "accept_mem cfg st mem_arg = (ra, st1)"
    by (cases "accept_mem cfg st mem_arg")
  note ta = threshold_accept_mem [OF a]
  have "\<not> inhibition cfg \<and> (\<exists>spk. fst (fire cfg ?s (mem ?s) z) = Inr spk \<and> tany spk)"
  proof (cases ra)
    case (Inl e)
    with a assms ta show ?thesis by (simp add: forward_def)
  next
    case (Inr u1)
    with a have p: "match_shape st1 x = prepared st x mem_arg"
      by (simp add: accept_mem_prepared)
    obtain ru st3 where u: "update_membrane cfg (prepared st x mem_arg) x = (ru, st3)"
      by (cases "update_membrane cfg (prepared st x mem_arg) x")
    note tu = threshold_update_membrane [OF u]
    have tp: "threshold (prepared st x mem_arg) = threshold st"
      by (simp add: prepared_def split: option.splits)
    show ?thesis
    proof (cases ru)
      case (Inl e)
      with a Inr p u assms tu tp show ?thesis by (simp add: forward_def)
    next
      case (Inr u3)
      with u have s: "?s = quantize_mem cfg st3" by (simp add: updated_def)
      obtain rs st5 where sp: "spike cfg ?s z = (rs, st5)" by (cases "spike cfg ?s z")
      have t5: "threshold st' = threshold st5"
      proof (cases rs)
        case (Inl e)
        with a \<open>ra = Inr u1\<close> p u Inr s sp assms(1) show ?thesis by (simp add: forward_def)
      next
        case (Inr sr)
        obtain spk tbs where "sr = (spk, tbs)" by (cases sr)
        with a \<open>ra = Inr u1\<close> p u \<open>ru = Inr u3\<close> s sp Inr assms(1)
        show ?thesis
          by (auto simp: forward_def split: prod.splits sum.splits dest: frame_immediate_reset)
      qed
      with assms(2) tu tp s have ch: "threshold st5 \<noteq> threshold ?s" by simp
      show ?thesis
      proof (cases rs)
        case (Inl e)
        with sp spike_Inl [of cfg ?s z e st5] ch show ?thesis by simp
      next
        case (Inr sr)
        obtain spk tbs where sr: "sr = (spk, tbs)" by (cases sr)
        with sp Inr have sp': "spike cfg ?s z = (Inr (spk, tbs), st5)" by simp
        from spike_Inr [OF sp'] ch
        have ni: "\<not> inhibition cfg" and f: "fire cfg ?s (mem ?s) z = (Inr spk, st5)"
          by auto
        from fire_spikes [OF f] ch have "tany spk" by (auto split: if_splits)
        with ni f show ?thesis by auto
      qed
    qed
  qed
  then show "\<not> inhibition cfg"
    and "\<exists>spk. fst (fire cfg ?s (mem ?s) z) = Inr spk \<and> tany spk"
    by simp_all
qed

section \<open>The threshold after a spike\<close>

text \<open>
  With inhibition off, a forward call that returns a nonzero spike has gone through
  \<^verbatim>\<open>fire\<close>, which adds to every element \<open>i\<close> of the threshold the sample
  \<open>funkiness * z i\<close>. With inhibition on, the call goes through \<^verbatim>\<open>fire_inhibition\<close>
  and the threshold stays as it was.
\<close>

lemma fire_path_perturbs_whole_threshold:
  assumes "forward cfg st x mem_arg z = (Inr (spk, mo), st')" "tany spk"
  shows "(\<not> inhibition cfg \<longrightarrow>
            0 \<le> funkiness cfg \<and>
            threshold st' = tensor_of (shape (threshold st))
              (\<lambda>i. vals (threshold st) ! i + funkiness cfg * z i) \<and>
            (\<forall>i. i < numel (shape (threshold st)) \<and> funkiness cfg * z i \<noteq> 0 \<longrightarrow>
               vals (threshold st') ! i \<noteq> vals (threshold st) ! i)) \<and>
         (inhibition cfg \<longrightarrow> threshold st' = threshold st)"
proof -
  from forward_Inr [OF assms(1)] obtain st1 st3 st5 s tbs where
    a: "accept_mem cfg st mem_arg = (Inr (), st1)" and
    u: "update_membrane cfg (match_shape st1 x) x = (Inr (), st3)" and
    s: "spike cfg (quantize_mem cfg st3) z = (Inr (s, tbs), st5)" and
    i: "immediate_reset cfg st5 s tbs = (Inr (), st')" and
    out: "(spk, mo) = returned cfg st' s"
    by blast
  from out have [simp]: "s = spk" by (metis fst_returned fst_conv)
  have t3: "threshold (quantize_mem cfg st3) = threshold st"
    using threshold_update_membrane [OF u] threshold_accept_mem [OF a] by simp
  have t5: "threshold st' = threshold st5"
    using frame_immediate_reset [OF i] by simp
  show ?thesis
  proof (cases "inhibition cfg")
    case True
    with spike_Inr [OF s] have "st5 = quantize_mem cfg st3" by auto
    with True t3 t5 show ?thesis by simp
  next
    case False
    with spike_Inr [OF s]
    have "fire cfg (quantize_mem cfg st3) (mem (quantize_mem cfg st3)) z = (Inr spk, st5)"
      by auto
    from fire_spikes [OF this] assms(2) t3 t5
    have f: "0 \<le> funkiness cfg" and
      th: "threshold st' = tensor_of (shape (threshold st))
              (\<lambda>i. vals (threshold st) ! i + funkiness cfg * z i)"
      by simp_all
    from th have "vals (threshold st') ! i \<noteq> vals (threshold st) ! i"
      if "i < numel (shape (threshold st)) \<and> funkiness cfg * z i \<noteq> 0" for i
      using that by (simp add: vals_tensor_of)
    with False f th show ?thesis by blast
  qed
qed

section \<open>The claims\<close>

text \<open>
  C1, at the input where it fails. With funkiness 0, inhibition on, no reset delay and
  reset by subtraction, \<^verbatim>\<open>forward\<close> raises the unbound-local error where the base neuron
  returns spikes and membrane. For every other configuration the two agree on every
  sequence of calls, and the threshold never changes (\<open>funkiness_zero_is_leaky\<close>,
  \<open>run_funkiness_zero\<close>).
\<close>

theorem funky_zero_differs_from_leaky:
  "funkiness ((default_config (scalar (1/2)))\<lparr>inhibition := True, reset_delay := False\<rparr>) = 0 \<and>
   fst (forward ((default_config (scalar (1/2)))\<lparr>inhibition := True, reset_delay := False\<rparr>)
     (initial_state (scalar 1)) (matrix 1 2 [3/2, 1/4]) None (\<lambda>i. 0)) = Inl UnboundLocalError \<and>
   fst (leaky_forward ((default_config (scalar (1/2)))\<lparr>inhibition := True, reset_delay := False\<rparr>)
     (initial_state (scalar 1)) (matrix 1 2 [3/2, 1/4]) None) =
     Inr (matrix 1 2 [1, 0], Some (matrix 1 2 [1/2, 1/4]))"
  by code_simp

text \<open>
  C2, at the input where it fails. With inhibition on, funkiness 1 and every draw 1, the
  call below returns a nonzero spike and the threshold after the call is the threshold
  before it: \<^verbatim>\<open>forward\<close> calls \<^verbatim>\<open>fire_inhibition\<close> there, and only \<^verbatim>\<open>fire\<close> moves the
  threshold. The same call with inhibition off moves both elements of the threshold
  (in general \<open>fire_path_perturbs_whole_threshold\<close>).
\<close>

theorem inhibition_spike_leaves_threshold:
  "inhibition ((default_config (scalar (1/2)))\<lparr>funkiness := 1, inhibition := True\<rparr>) \<and>
   funkiness ((default_config (scalar (1/2)))\<lparr>funkiness := 1, inhibition := True\<rparr>) = 1 \<and>
   forward ((default_config (scalar (1/2)))\<lparr>funkiness := 1, inhibition := True\<rparr>)
     (initial_state (vector [1, 1])) (matrix 1 2 [3/2, 1/4]) None (\<lambda>i. 1) =
     (Inr (matrix 1 2 [1, 0], Some (matrix 1 2 [3/2, 1/4])),
      \<lparr>mem = matrix 1 2 [3/2, 1/4], reset = matrix 1 2 [0, 0], threshold = vector [1, 1]\<rparr>) \<and>
   tany (matrix 1 2 [1, 0]) \<and>
   threshold (initial_state (vector [1, 1])) = vector [1, 1] \<and>
   forward ((default_config (scalar (1/2)))\<lparr>funkiness := 1\<rparr>)
     (initial_state (vector [1, 1])) (matrix 1 2 [3/2, 1/4]) None (\<lambda>i. 1) =
     (Inr (matrix 1 2 [1, 0], Some (matrix 1 2 [3/2, 1/4])),
      \<lparr>mem = matrix 1 2 [3/2, 1/4], reset = matrix 1 2 [0, 0], threshold = vector [2, 2]\<rparr>)"
  by code_simp

text \<open>
  C3. A forward call that returns a spike tensor of zeros only leaves the threshold as it
  was. The threshold changes only in a call that produced a nonzero spike: when the
  threshold differs after a call, inhibition is off and \<^verbatim>\<open>fire\<close>, called on the membrane
  of that call, produced a spike tensor with a nonzero element; when the call conforms,
  it has returned that spike tensor.
\<close>

theorem threshold_changes_only_with_spikes:
  fixes cfg :: config and st :: funky_state and x :: tensor and mem_arg :: "tensor option"
  defines "s \<equiv> quantize_mem cfg (updated cfg st x mem_arg)"
  assumes "forward cfg st x mem_arg z = (res, st')"
  shows "(\<forall>spk mo. res = Inr (spk, mo) \<and> \<not> tany spk \<longrightarrow> threshold st' = threshold st) \<and>
         (threshold st' \<noteq> threshold st \<longrightarrow>
            \<not> inhibition cfg \<and> (\<exists>spk. fst (fire cfg s (mem s) z) = Inr spk \<and> tany spk)) \<and>
         (conforms cfg st x mem_arg \<and> threshold st' \<noteq> threshold st \<longrightarrow>
            (\<exists>spk mo. res = Inr (spk, mo) \<and> tany spk))"
proof (intro conjI allI impI)
  fix spk mo
  assume "res = Inr (spk, mo) \<and> \<not> tany spk"
  with assms(2) zero_spikes_keep_threshold [of cfg st x mem_arg z spk mo st']
  show "threshold st' = threshold st" by simp
next
  assume "threshold st' \<noteq> threshold st"
  with threshold_changed_by_fire [OF assms(2)]
  show "\<not> inhibition cfg" and "\<exists>spk. fst (fire cfg s (mem s) z) = Inr spk \<and> tany spk"
    by (simp_all add: s_def)
next
  assume h: "conforms cfg st x mem_arg \<and> threshold st' \<noteq> threshold st"
  show "\<exists>spk mo. res = Inr (spk, mo) \<and> tany spk"
  proof (cases res)
    case (Inl e)
    with assms(2) h failed_call_keeps_threshold [of cfg st x mem_arg z e st'] show ?thesis by simp
  next
    case (Inr out)
    obtain spk mo where "out = (spk, mo)" by (cases out)
    with Inr assms(2) h zero_spikes_keep_threshold [of cfg st x mem_arg z spk mo st']
    show ?thesis by auto
  qed
qed

theorem threshold_changes_only_with_spikes_witness:
  "forward ((default_config (scalar (1/2)))\<lparr>funkiness := 1\<rparr>) (initial_state (scalar 1))
      (vector [3/5]) None (\<lambda>i. 1) =
     (Inr (vector [0], Some (vector [3/5])),
      \<lparr>mem = vector [3/5], reset = vector [0], threshold = scalar 1\<rparr>) \<and>
   \<not> tany (vector [0]) \<and>
   threshold \<lparr>mem = vector [3/5], reset = vector [0], threshold = scalar 1\<rparr> =
     threshold (initial_state (scalar 1)) \<and>
   conforms ((default_config (scalar (1/2)))\<lparr>funkiness := 1\<rparr>) (initial_state (scalar 1))
     (vector [3/2]) None \<and>
   forward ((default_config (scalar (1/2)))\<lparr>funkiness := 1\<rparr>) (initial_state (scalar 1))
      (vector [3/2]) None (\<lambda>i. 1) =
     (Inr (vector [1], Some (vector [3/2])),
      \<lparr>mem = vector [3/2], reset = vector [0], threshold = scalar 2\<rparr>) \<and>
   threshold \<lparr>mem = vector [3/2], reset = vector [0], threshold = scalar 2\<rparr> \<noteq>
     threshold (initial_state (scalar 1)) \<and>
   tany (vector [1])"
proof -
  let ?cfg = "(default_config (scalar (1/2)))\<lparr>funkiness := 1\<rparr>"
  let ?st = "initial_state (scalar 1)"
  let ?a = "\<lparr>mem = vector [3/5], reset = vector [0], threshold = scalar 1\<rparr>"
  let ?b = "\<lparr>mem = vector [3/2], reset = vector [0], threshold = scalar 2\<rparr>"
  have a: "forward ?cfg ?st (vector [3/5]) None (\<lambda>i. 1) = (Inr (vector [0], Some (vector [3/5])), ?a)"
    by code_simp
  have b: "forward ?cfg ?st (vector [3/2]) None (\<lambda>i. 1) = (Inr (vector [1], Some (vector [3/2])), ?b)"
    by code_simp
  have c: "conforms ?cfg ?st (vector [3/2]) None"
    by (simp add: conforms_def fits_def wf_tensor_def numel_def broadcast_shapes_def quant_def
        default_config_def initial_state_def scalar_def vector_def zeros0_def)
  have quiet: "\<not> tany (vector [0])" by code_simp
  have changed: "threshold ?b \<noteq> threshold ?st"
    by (simp add: initial_state_def scalar_def)
  from threshold_changes_only_with_spikes [OF a] quiet
  have keep: "threshold ?a = threshold ?st" by blast
  from threshold_changes_only_with_spikes [OF b] c changed
  obtain spk mo where "Inr (vector [1], Some (vector [3/2])) = Inr (spk, mo)" "tany spk"
    by blast
  then have "tany (vector [1])" by simp
  with a b quiet keep changed c show ?thesis by simp
qed

text \<open>
  C4. With reset by subtraction and reset delay, a forward call that returns has set the
  membrane, at line 218, to \<open>M = \<beta>\<cdot>mem + I - R\<cdot>\<theta>\<close>: \<open>\<beta>\<close> the clamped decay rate,
  \<open>mem\<close> the membrane the step started from, \<open>I\<close> the input, \<open>\<theta>\<close> the threshold and
  \<open>R\<close> the reset indicator of \<open>mem\<close> against \<open>\<theta>\<close>, which the call leaves in
  \<^verbatim>\<open>self.reset\<close>. The membrane the call leaves and returns is \<open>M\<close>, passed through the
  quantisation function when one is configured. Every element of \<open>R\<close> is 1 or 0; the
  element of \<open>M\<close> is \<open>\<beta>\<cdot>mem + I - \<theta>\<close> where it is 1 and \<open>\<beta>\<cdot>mem + I\<close> where it is 0. In a
  conforming call all of them have the input's shape.
\<close>

theorem subtract_update:
  fixes cfg :: config and st :: funky_state and x :: tensor and mem_arg :: "tensor option"
  defines "m \<equiv> starting_mem st x mem_arg"
    and "R \<equiv> reset (updated cfg st x mem_arg)"
    and "M \<equiv> mem (updated cfg st x mem_arg)"
    and "r \<equiv> shape (mem (updated cfg st x mem_arg))"
  assumes "reset_mechanism_val cfg = Subtract" "reset_delay cfg" "wf_tensor (beta cfg)"
    "forward cfg st x mem_arg z = (Inr out, st')"
  shows "mem_reset (prepared st x mem_arg) m = Inr R \<and>
         M = spec_subtract r (beta cfg) m x R (threshold st) \<and>
         reset st' = R \<and> mem st' = quant cfg M \<and>
         snd out = (if output_flag cfg \<or> \<not> init_hidden cfg then Some (mem st') else None) \<and>
         (\<forall>i. i < numel r \<longrightarrow>
            bget r R i = (if bget r (threshold st) i < bget r m i then 1 else 0) \<and>
            (bget r R i = 1 \<longrightarrow>
               vals M ! i = clamp01 (bget r (beta cfg) i) * bget r m i + bget r x i
                              - bget r (threshold st) i) \<and>
            (bget r R i = 0 \<longrightarrow>
               vals M ! i = clamp01 (bget r (beta cfg) i) * bget r m i + bget r x i)) \<and>
         (conforms cfg st x mem_arg \<longrightarrow> r = shape x \<and> shape R = shape x)"
proof -
  let ?p = "prepared st x mem_arg"
  note fw = forward_delayed_updated [OF assms(6,8)]
  note el = update_membrane_subtract_elements [OF assms(5,7) fw(1)]
  have mp: "mem ?p = m" and tp: "threshold ?p = threshold st"
    by (simp_all add: m_def starting_mem_def prepared_def match_shape_def split: option.splits)
  from el(1) have mr: "mem_reset ?p m = Inr R" by (simp add: mp R_def)
  from el(2) have M: "M = spec_subtract r (beta cfg) m x R (threshold st)"
    by (simp add: mp tp M_def R_def r_def)
  from el(3) have iR: "into r R" by (simp add: r_def R_def)
  have Ri: "bget r R i = (if bget r (threshold st) i < bget r m i then 1 else 0)"
    if "i < numel r" for i
    using bget_mem_reset [OF mr iR that] by (simp add: tp)
  have Mi: "vals M ! i = clamp01 (bget r (beta cfg) i) * bget r m i + bget r x i
      - bget r R i * bget r (threshold st) i" if "i < numel r" for i
    using that by (subst M) (simp add: spec_subtract_def vals_tensor_of)
  have sh: "r = shape x \<and> shape R = shape x" if c: "conforms cfg st x mem_arg"
  proof -
    from c have "wf_tensor x" "fits (shape x) (beta cfg)" "fits (shape x) (threshold st)"
      by (auto simp: conforms_def)
    with conforms_prepared [OF c] update_ready [of ?p "shape x" x cfg] fw(1)
    show ?thesis by (auto simp: ready_def r_def R_def)
  qed
  from mr M fw(2,3,4) Ri Mi sh show ?thesis
    by (simp add: M_def R_def)
qed

theorem subtract_update_witness:
  "reset_mechanism_val (default_config (vector [1/2, 3])) = Subtract \<and>
   reset_delay (default_config (vector [1/2, 3])) \<and>
   wf_tensor (beta (default_config (vector [1/2, 3]))) \<and>
   forward (default_config (vector [1/2, 3]))
     \<lparr>mem = matrix 1 2 [2, 1/2], reset = zeros0, threshold = vector [1, 1]\<rparr> (matrix 1 2 [1/4, 1/4]) None (\<lambda>i. 0) =
     (Inr (matrix 1 2 [0, 0], Some (matrix 1 2 [1/4, 3/4])),
      \<lparr>mem = matrix 1 2 [1/4, 3/4], reset = matrix 1 2 [1, 0], threshold = vector [1, 1]\<rparr>) \<and>
   updated (default_config (vector [1/2, 3]))
     \<lparr>mem = matrix 1 2 [2, 1/2], reset = zeros0, threshold = vector [1, 1]\<rparr> (matrix 1 2 [1/4, 1/4]) None =
     \<lparr>mem = matrix 1 2 [1/4, 3/4], reset = matrix 1 2 [1, 0], threshold = vector [1, 1]\<rparr> \<and>
   matrix 1 2 [1/4, 3/4] =
     spec_subtract [1, 2] (vector [1/2, 3]) (matrix 1 2 [2, 1/2]) (matrix 1 2 [1/4, 1/4])
       (matrix 1 2 [1, 0]) (vector [1, 1])"
proof -
  let ?cfg = "default_config (vector [1/2, 3])"
  let ?st = "\<lparr>mem = matrix 1 2 [2, 1/2], reset = zeros0, threshold = vector [1, 1]\<rparr>"
  let ?x = "matrix 1 2 [1/4, 1/4]"
  let ?st' = "\<lparr>mem = matrix 1 2 [1/4, 3/4], reset = matrix 1 2 [1, 0], threshold = vector [1, 1]\<rparr>"
  have h1: "reset_mechanism_val ?cfg = Subtract" and h2: "reset_delay ?cfg"
    and h3: "wf_tensor (beta ?cfg)"
    by (simp_all add: default_config_def wf_tensor_def numel_def vector_def)
  have f: "forward ?cfg ?st ?x None (\<lambda>i. 0) = (Inr (matrix 1 2 [0, 0], Some (matrix 1 2 [1/4, 3/4])), ?st')"
    by code_simp
  have u: "updated ?cfg ?st ?x None = ?st'" by code_simp
  have s: "starting_mem ?st ?x None = matrix 1 2 [2, 1/2]" by code_simp
  from subtract_update [OF h1 h2 h3 f]
  have "mem (updated ?cfg ?st ?x None) =
      spec_subtract (shape (mem (updated ?cfg ?st ?x None))) (beta ?cfg) (starting_mem ?st ?x None) ?x
        (reset (updated ?cfg ?st ?x None)) (threshold ?st)"
    by blast
  then have "matrix 1 2 [1/4, 3/4] =
     spec_subtract [1, 2] (vector [1/2, 3]) (matrix 1 2 [2, 1/2]) ?x (matrix 1 2 [1, 0]) (vector [1, 1])"
    unfolding u s by (simp add: default_config_def matrix_def)
  with h1 h2 h3 f u show ?thesis by simp
qed

text \<open>
  C5. With reset to zero, a forward call that returns has first replaced the membrane by
  \<open>Z = (1 - R)\<cdot>mem\<close> (\<^verbatim>\<open>_base_zero\<close> assigns it to \<^verbatim>\<open>self.mem\<close>) and then set the
  new membrane to \<open>N = \<beta>\<cdot>Z + I\<close>, with \<open>R\<close> the reset indicator of the membrane the
  step started from, which the call leaves in \<^verbatim>\<open>self.reset\<close>. Where that membrane value
  exceeded the threshold, \<open>R\<close> is 1, \<open>Z\<close> is 0 and \<open>N\<close> is the input element alone:
  the previous value contributes nothing. With reset delay, the membrane the call
  leaves is \<open>N\<close>, quantised when a quantisation function is configured; without it, the
  call leaves \<open>N' - (S - R)\<cdot>N'\<close>, where \<open>N'\<close> is that membrane and \<open>S\<close> the returned
  spikes divided by the graded-spike factor. In a conforming call \<open>N\<close> and \<open>Z\<close> have
  the input's shape.
\<close>

theorem zero_reset_update:
  fixes cfg :: config and st :: funky_state and x :: tensor and mem_arg :: "tensor option"
  defines "m \<equiv> starting_mem st x mem_arg"
    and "R \<equiv> reset (updated cfg st x mem_arg)"
    and "N \<equiv> mem (updated cfg st x mem_arg)"
    and "r \<equiv> shape (mem (updated cfg st x mem_arg))"
    and "Z \<equiv> mem (snd (base_zero cfg ((prepared st x mem_arg)\<lparr>reset := reset (updated cfg st x mem_arg)\<rparr>) x))"
  assumes "reset_mechanism_val cfg = Zero" "wf_tensor (beta cfg)"
    "forward cfg st x mem_arg z = (Inr out, st')"
  shows "mem_reset (prepared st x mem_arg) m = Inr R \<and>
         base_zero cfg ((prepared st x mem_arg)\<lparr>reset := R\<rparr>) x =
           (Inr N, (prepared st x mem_arg)\<lparr>reset := R, mem := Z\<rparr>) \<and>
         Z = spec_zeroed (shape Z) R m \<and>
         N = spec_integrate r (beta cfg) Z x \<and>
         reset st' = R \<and>
         (reset_delay cfg \<longrightarrow> mem st' = quant cfg N) \<and>
         (\<not> reset_delay cfg \<longrightarrow>
            (\<exists>S do_reset d. tdiv (fst out) (graded_spikes_factor cfg) = Inr S \<and>
               tsub S R = Inr do_reset \<and> tmul do_reset (quant cfg N) = Inr d \<and>
               tsub (quant cfg N) d = Inr (mem st'))) \<and>
         snd out = (if output_flag cfg \<or> \<not> init_hidden cfg then Some (mem st') else None) \<and>
         (\<forall>i. i < numel r \<and> bget r (threshold st) i < bget r m i \<longrightarrow>
            bget r R i = 1 \<and> bget r Z i = 0 \<and> vals N ! i = bget r x i) \<and>
         (conforms cfg st x mem_arg \<longrightarrow> r = shape x \<and> shape Z = shape x \<and> shape R = shape x)"
proof -
  let ?p = "prepared st x mem_arg"
  let ?u = "updated cfg st x mem_arg"
  from forward_Inr [OF assms(8)] obtain st1 st3 st5 spk tbs where
    a: "accept_mem cfg st mem_arg = (Inr (), st1)" and
    u0: "update_membrane cfg (match_shape st1 x) x = (Inr (), st3)" and
    s: "spike cfg (quantize_mem cfg st3) z = (Inr (spk, tbs), st5)" and
    i: "immediate_reset cfg st5 spk tbs = (Inr (), st')" and
    o: "out = returned cfg st' spk"
    by blast
  from u0 accept_mem_prepared [OF a] have u1: "update_membrane cfg ?p x = (Inr (), st3)"
    by simp
  then have st3: "?u = st3" by (simp add: updated_def)
  with u1 have u: "update_membrane cfg ?p x = (Inr (), ?u)" by simp
  have mp: "mem ?p = m" and tp: "threshold ?p = threshold st"
    by (simp_all add: m_def starting_mem_def prepared_def match_shape_def split: option.splits)
  note el = update_membrane_zero_elements [OF assms(6,7) u]
  from el(1) have mr: "mem_reset ?p m = Inr R" by (simp add: mp R_def)
  from el(2) obtain Z' where
    bz: "base_zero cfg (?p\<lparr>reset := R\<rparr>) x = (Inr N, ?p\<lparr>reset := R, mem := Z'\<rparr>)" and
    Zs: "Z' = spec_zeroed (shape Z') R m" and
    Ns: "N = spec_integrate r (beta cfg) Z' x" and
    iZ: "into r Z'" and iR: "into r R" and
    Zi: "\<And>i. i < numel r \<Longrightarrow> bget r Z' i = (1 - bget r R i) * bget r m i"
    unfolding R_def N_def r_def mp by blast
  from bz have Z': "Z' = Z" by (simp add: Z_def R_def)
  have Ri: "bget r R i = (if bget r (threshold st) i < bget r m i then 1 else 0)"
    if "i < numel r" for i
    using bget_mem_reset [OF mr iR that] by (simp add: tp)
  have Ni: "vals N ! i = clamp01 (bget r (beta cfg) i) * bget r Z i + bget r x i"
    if "i < numel r" for i
    using that by (subst Ns) (simp add: spec_integrate_def vals_tensor_of Z')
  have el': "bget r R i = 1 \<and> bget r Z i = 0 \<and> vals N ! i = bget r x i"
    if "i < numel r \<and> bget r (threshold st) i < bget r m i" for i
    using that Ri [of i] Zi [of i] Ni [of i] by (simp add: Z')
  from spike_frame [OF s] st3 have m5: "mem st5 = quant cfg N" and r5: "reset st5 = R"
    by (simp_all add: quantize_mem_def N_def R_def)
  from frame_immediate_reset [OF i] r5 have rs: "reset st' = R" by simp
  have del: "mem st' = quant cfg N" if "reset_delay cfg"
    using that i m5 by (simp add: immediate_reset_def)
  from o have so: "fst out = spk" by simp
  have imm: "\<exists>S do_reset d. tdiv (fst out) (graded_spikes_factor cfg) = Inr S \<and>
       tsub S R = Inr do_reset \<and> tmul do_reset (quant cfg N) = Inr d \<and>
       tsub (quant cfg N) d = Inr (mem st')" if "\<not> reset_delay cfg"
    using that i assms(6) unfolding so m5 [symmetric] r5 [symmetric]
    by (auto simp: immediate_reset_def split: sum.splits)
  from o have sn: "snd out = (if output_flag cfg \<or> \<not> init_hidden cfg then Some (mem st') else None)"
    by (auto simp: returned_def)
  have sh: "r = shape x \<and> shape Z = shape x \<and> shape R = shape x" if c: "conforms cfg st x mem_arg"
  proof -
    from c have cc: "wf_tensor x" "fits (shape x) (beta cfg)" "fits (shape x) (threshold st)"
      by (auto simp: conforms_def)
    with conforms_prepared [OF c] update_ready [of ?p "shape x" x cfg] u
    have "r = shape x" "shape R = shape x" by (auto simp: ready_def r_def R_def)
    moreover from update_membrane_zero [OF assms(6) conforms_prepared(1) [OF c] refl cc(1,2)]
      conforms_prepared(3) [OF c] cc(3) u
    have "R = tensor_of (shape x) (\<lambda>i. if bget (shape x) (threshold st) i < vals (mem ?p) ! i then 1 else 0)"
      by (simp add: R_def)
    with conforms_prepared [OF c] have "shape Z = shape x"
      by (simp add: Z_def R_def base_zero_def one_minus_def tensor_simps tmap_def tensor_of_def)
    ultimately show ?thesis by simp
  qed
  from mr bz Zs Ns rs del imm sn el' sh show ?thesis unfolding Z' by blast
qed

theorem zero_reset_update_witness:
  "reset_mechanism_val ((default_config (scalar (1/2)))\<lparr>reset_mechanism_val := Zero\<rparr>) = Zero \<and>
   wf_tensor (beta ((default_config (scalar (1/2)))\<lparr>reset_mechanism_val := Zero\<rparr>)) \<and>
   forward ((default_config (scalar (1/2)))\<lparr>reset_mechanism_val := Zero\<rparr>)
     \<lparr>mem = vector [2, 1/2], reset = zeros0, threshold = scalar 1\<rparr> (vector [1/4, 1/4]) None (\<lambda>i. 0) =
     (Inr (vector [0, 0], Some (vector [1/4, 1/2])),
      \<lparr>mem = vector [1/4, 1/2], reset = vector [1, 0], threshold = scalar 1\<rparr>) \<and>
   spec_reset [2] (scalar 1) (vector [2, 1/2]) = vector [1, 0] \<and>
   base_zero ((default_config (scalar (1/2)))\<lparr>reset_mechanism_val := Zero\<rparr>)
     \<lparr>mem = vector [2, 1/2], reset = vector [1, 0], threshold = scalar 1\<rparr> (vector [1/4, 1/4]) =
     (Inr (vector [1/4, 1/2]), \<lparr>mem = vector [0, 1/2], reset = vector [1, 0], threshold = scalar 1\<rparr>) \<and>
   mem \<lparr>mem = vector [1/4, 1/2], reset = vector [1, 0], threshold = scalar 1\<rparr> =
     spec_integrate [2] (scalar (1/2)) (vector [0, 1/2]) (vector [1/4, 1/4]) \<and>
   vals (vector [1/4, 1/2]) ! 0 = bget [2] (vector [1/4, 1/4]) 0"
proof -
  let ?cfg = "(default_config (scalar (1/2)))\<lparr>reset_mechanism_val := Zero\<rparr>"
  let ?st = "\<lparr>mem = vector [2, 1/2], reset = zeros0, threshold = scalar 1\<rparr>"
  let ?x = "vector [1/4, 1/4]"
  let ?u = "\<lparr>mem = vector [1/4, 1/2], reset = vector [1, 0], threshold = scalar 1\<rparr>"
  have h1: "reset_mechanism_val ?cfg = Zero" and h2: "wf_tensor (beta ?cfg)"
    and d: "reset_delay ?cfg" and q: "quant ?cfg (vector [1/4, 1/2]) = vector [1/4, 1/2]"
    and bt: "beta ?cfg = scalar (1/2)"
    by (simp_all add: default_config_def wf_tensor_def numel_def scalar_def quant_def)
  have f: "forward ?cfg ?st ?x None (\<lambda>i. 0) = (Inr (vector [0, 0], Some (vector [1/4, 1/2])), ?u)"
    by code_simp
  have p: "prepared ?st ?x None = ?st" and u: "updated ?cfg ?st ?x None = ?u"
    and r: "spec_reset [2] (scalar 1) (vector [2, 1/2]) = vector [1, 0]"
    and z: "mem (snd (base_zero ?cfg
        \<lparr>mem = vector [2, 1/2], reset = vector [1, 0], threshold = scalar 1\<rparr> ?x)) = vector [0, 1/2]"
    and i: "(0::nat) < numel (shape (vector [1/4, 1/2 :: real])) \<and>
        bget (shape (vector [1/4, 1/2])) (threshold ?st) 0 <
        bget (shape (vector [1/4, 1/2])) (starting_mem ?st ?x None) 0"
    and s: "shape (vector [1/4, 1/2 :: real]) = [2]"
    by code_simp+
  from zero_reset_update [OF h1 h2 f]
  have "base_zero ?cfg ((prepared ?st ?x None)\<lparr>reset := reset (updated ?cfg ?st ?x None)\<rparr>) ?x =
           (Inr (mem (updated ?cfg ?st ?x None)),
            (prepared ?st ?x None)\<lparr>reset := reset (updated ?cfg ?st ?x None),
               mem := mem (snd (base_zero ?cfg
                 ((prepared ?st ?x None)\<lparr>reset := reset (updated ?cfg ?st ?x None)\<rparr>) ?x))\<rparr>)"
    and "mem (updated ?cfg ?st ?x None) =
           spec_integrate (shape (mem (updated ?cfg ?st ?x None))) (beta ?cfg)
             (mem (snd (base_zero ?cfg
                 ((prepared ?st ?x None)\<lparr>reset := reset (updated ?cfg ?st ?x None)\<rparr>) ?x))) ?x"
    and "\<forall>i. i < numel (shape (mem (updated ?cfg ?st ?x None))) \<and>
            bget (shape (mem (updated ?cfg ?st ?x None))) (threshold ?st) i <
            bget (shape (mem (updated ?cfg ?st ?x None))) (starting_mem ?st ?x None) i \<longrightarrow>
          vals (mem (updated ?cfg ?st ?x None)) ! i = bget (shape (mem (updated ?cfg ?st ?x None))) ?x i"
    by blast+
  then have b: "base_zero ?cfg \<lparr>mem = vector [2, 1/2], reset = vector [1, 0], threshold = scalar 1\<rparr> ?x =
      (Inr (vector [1/4, 1/2]), \<lparr>mem = vector [0, 1/2], reset = vector [1, 0], threshold = scalar 1\<rparr>)"
    and n: "vector [1/4, 1/2] = spec_integrate [2] (scalar (1/2)) (vector [0, 1/2]) ?x"
    and e: "\<forall>i. i < numel (shape (vector [1/4, 1/2 :: real])) \<and>
            bget (shape (vector [1/4, 1/2])) (threshold ?st) i <
            bget (shape (vector [1/4, 1/2])) (starting_mem ?st ?x None) i \<longrightarrow>
          vals (vector [1/4, 1/2]) ! i = bget (shape (vector [1/4, 1/2])) ?x i"
    by (simp_all add: p u z s bt)
  from e i have v: "vals (vector [1/4, 1/2]) ! 0 = bget [2] ?x 0"
    unfolding s by blast
  from n have n': "mem ?u = spec_integrate [2] (scalar (1/2)) (vector [0, 1/2]) ?x" by simp
  from h1 h2 f r b n' v show ?thesis by blast
qed

text \<open>
  C6, at the input where it fails. The neuron below does not own its hidden state and
  no membrane is passed, so the configuration check passes; the call raises the
  unbound-local error all the same.
\<close>

theorem forward_raises_unbound_local:
  "\<not> init_hidden ((default_config (scalar (1/2)))\<lparr>inhibition := True, reset_delay := False\<rparr>) \<and>
   forward ((default_config (scalar (1/2)))\<lparr>inhibition := True, reset_delay := False\<rparr>)
     (initial_state (scalar 1)) (matrix 1 2 [3/2, 1/4]) None (\<lambda>i. 0) =
     (Inl UnboundLocalError,
      \<lparr>mem = matrix 1 2 [3/2, 1/4], reset = matrix 1 2 [0, 0], threshold = scalar 1\<rparr>)"
  by code_simp

text \<open>
  C7, as amended. After a conforming forward call that returns, the stored membrane has
  the shape of the call's input. When the membrane the call would start from (the
  argument, else the stored one) has another shape than the input, the step starts from
  zeros of the input's shape and nothing is raised for it: the call does what it does
  on a neuron whose membrane is those zeros.
\<close>

theorem membrane_shape_follows_input:
  assumes "conforms cfg st x mem_arg" "forward cfg st x mem_arg z = (Inr out, st')"
  shows "shape (mem st') = shape x \<and>
         (shape (case mem_arg of None \<Rightarrow> mem st | Some m \<Rightarrow> m) \<noteq> shape x \<longrightarrow>
            starting_mem st x mem_arg = zeros_like x \<and>
            forward cfg st x mem_arg z = forward cfg (st\<lparr>mem := zeros_like x\<rparr>) x None z)"
proof -
  from forward_Inr [OF assms(2)] obtain st1 where "accept_mem cfg st mem_arg = (Inr (), st1)"
    by blast
  from accept_mem_Inr [OF this] have ok: "\<not> (init_hidden cfg \<and> mem_arg \<noteq> None)" by simp
  have "starting_mem st x mem_arg = zeros_like x"
    if "shape (case mem_arg of None \<Rightarrow> mem st | Some m \<Rightarrow> m) \<noteq> shape x"
    using that by (auto simp: starting_mem_def prepared_def match_shape_def split: option.splits)
  with forward_shapes [OF assms] mismatch_restarts_from_zeros [OF _ ok] show ?thesis
    by blast
qed

theorem membrane_shape_follows_input_witness:
  "conforms (default_config (scalar (1/2)))
      \<lparr>mem = vector [7, 8, 9], reset = zeros0, threshold = scalar 1\<rparr> (matrix 1 2 [3/2, 1/4]) None \<and>
   forward (default_config (scalar (1/2)))
      \<lparr>mem = vector [7, 8, 9], reset = zeros0, threshold = scalar 1\<rparr> (matrix 1 2 [3/2, 1/4]) None (\<lambda>i. 0) =
     (Inr (matrix 1 2 [1, 0], Some (matrix 1 2 [3/2, 1/4])),
      \<lparr>mem = matrix 1 2 [3/2, 1/4], reset = matrix 1 2 [0, 0], threshold = scalar 1\<rparr>) \<and>
   shape (vector [7, 8, 9]) \<noteq> shape (matrix 1 2 [3/2, 1/4]) \<and>
   shape (matrix 1 2 [3/2, 1/4]) = [1, 2] \<and>
   starting_mem \<lparr>mem = vector [7, 8, 9], reset = zeros0, threshold = scalar 1\<rparr>
      (matrix 1 2 [3/2, 1/4]) None = matrix 1 2 [0, 0]"
proof -
  let ?cfg = "default_config (scalar (1/2))"
  let ?st = "\<lparr>mem = vector [7, 8, 9], reset = zeros0, threshold = scalar 1\<rparr>"
  let ?x = "matrix 1 2 [3/2, 1/4]"
  let ?st' = "\<lparr>mem = matrix 1 2 [3/2, 1/4], reset = matrix 1 2 [0, 0], threshold = scalar 1\<rparr>"
  have c: "conforms ?cfg ?st ?x None"
    by (simp add: conforms_def fits_def wf_tensor_def numel_def broadcast_shapes_def quant_def
        default_config_def scalar_def vector_def matrix_def)
  have f: "forward ?cfg ?st ?x None (\<lambda>i. 0) = (Inr (matrix 1 2 [1, 0], Some (matrix 1 2 [3/2, 1/4])), ?st')"
    by code_simp
  have d: "shape (case None of None \<Rightarrow> mem ?st | Some m \<Rightarrow> m) \<noteq> shape ?x"
    by (simp add: vector_def matrix_def)
  have z: "zeros_like ?x = matrix 1 2 [0, 0]" by code_simp
  from membrane_shape_follows_input [OF c f] d z
  have "shape (mem ?st') = shape ?x \<and> starting_mem ?st ?x None = matrix 1 2 [0, 0]"
    by simp
  with c f d show ?thesis by (simp add: matrix_def vector_def)
qed

text \<open>
  C7 as stated fails when a parameter is wider than the input: the state function
  broadcasts. With a decay rate of three elements and an input of one element the call
  below returns, and the membrane it leaves has three elements.
\<close>

theorem wider_decay_rate_widens_membrane_counterexample:
  "forward (default_config (vector [1/2, 1/2, 1/2])) (initial_state (scalar 1)) (vector [1]) None (\<lambda>i. 0) =
     (Inr (vector [0, 0, 0], Some (vector [1, 1, 1])),
      \<lparr>mem = vector [1, 1, 1], reset = vector [0], threshold = scalar 1\<rparr>) \<and>
   shape (vector [1, 1, 1]) = [3] \<and> shape (vector [1]) = [1]"
  by code_simp

text \<open>
  C8, as amended. With inhibition on, no reset delay and reset by subtraction, no forward
  call returns. The name \<^verbatim>\<open>threshold_before_spike\<close> is bound only on the path without
  inhibition and is read by the immediate reset, so every conforming call that passes
  the argument check, on a batch of feature rows that is not empty, ends in the
  unbound-local error. A call that passes a membrane to a neuron that owns its hidden
  state ends in the configuration error before that.
\<close>

theorem unbound_threshold_before_spike:
  assumes "inhibition cfg" "\<not> reset_delay cfg" "reset_mechanism_val cfg = Subtract"
  shows "(\<exists>e. fst (forward cfg st x mem_arg z) = Inl e) \<and>
         (conforms cfg st x mem_arg \<and> \<not> (init_hidden cfg \<and> mem_arg \<noteq> None) \<and>
          length (shape x) = 2 \<and> 0 < numel (shape x) \<longrightarrow>
            fst (forward cfg st x mem_arg z) = Inl UnboundLocalError) \<and>
         (init_hidden cfg \<and> mem_arg \<noteq> None \<longrightarrow>
            fst (forward cfg st x mem_arg z) = Inl TypeError)"
proof (intro conjI impI)
  show "\<exists>e. fst (forward cfg st x mem_arg z) = Inl e"
  proof (cases "forward cfg st x mem_arg z")
    case (Pair res st')
    show ?thesis
    proof (cases res)
      case (Inl e)
      with Pair show ?thesis by simp
    next
      case (Inr out)
      with Pair have "forward cfg st x mem_arg z = (Inr out, st')" by simp
      from forward_Inr [OF this] obtain st3 st5 spk tbs where
        s: "spike cfg (quantize_mem cfg st3) z = (Inr (spk, tbs), st5)" and
        i: "immediate_reset cfg st5 spk tbs = (Inr (), st')"
        by blast
      from spike_Inr [OF s] assms(1) have "tbs = Unbound" by auto
      with i immediate_reset_never_unbound [OF assms(3,2), of st5 spk "()" st'] show ?thesis
        by simp
    qed
  qed
next
  assume h0: "conforms cfg st x mem_arg \<and> \<not> (init_hidden cfg \<and> mem_arg \<noteq> None) \<and>
    length (shape x) = 2 \<and> 0 < numel (shape x)"
  then have h: "conforms cfg st x mem_arg \<and> \<not> (init_hidden cfg \<and> mem_arg \<noteq> None) \<and> shape x \<noteq> []"
    by auto
  let ?st2 = "prepared st x mem_arg"
  let ?r = "shape x"
  from h have cf: "conforms cfg st x mem_arg" by simp
  from cf have c: "wf_tensor x" "fits ?r (beta cfg)" "fits ?r (threshold st)"
    "fits ?r (graded_spikes_factor cfg)"
    and q: "\<forall>t. wf_tensor t \<longrightarrow> wf_tensor (quant cfg t) \<and> shape (quant cfg t) = shape t"
    by (auto simp: conforms_def)
  from h have a: "accept_mem cfg st mem_arg = (Inr (), case mem_arg of None \<Rightarrow> st | Some m \<Rightarrow> st\<lparr>mem := m\<rparr>)"
    by (simp add: accept_mem_ok)
  from conforms_prepared [OF cf] update_ready [of ?st2 ?r x cfg] c
  obtain st3 where u: "update_membrane cfg ?st2 x = (Inr (), st3)" and r3: "ready ?r st3"
    by auto
  from quantize_ready [OF r3 q] have r4: "ready ?r (quantize_mem cfg st3)" .
  then have sh: "shape (mem (quantize_mem cfg st3)) = ?r" and ft: "fits ?r (threshold (quantize_mem cfg st3))"
    by (simp_all add: ready_def)
  from sh h obtain d s where "shape (mem (quantize_mem cfg st3)) = d # s"
    by (cases ?r) auto
  then have sz: "size0 (mem (quantize_mem cfg st3)) = Inr d" by (simp add: size0_def)
  from fire_inhibition_fit [OF sh ft] obtain spk where
    fi: "fire_inhibition (quantize_mem cfg st3) d (mem (quantize_mem cfg st3)) = Inr spk" and
    sp: "shape spk = ?r"
    by blast
  from sz fi assms(1) have s: "spike cfg (quantize_mem cfg st3) z = (Inr (spk, Unbound), quantize_mem cfg st3)"
    by (simp add: spike_def)
  from immediate_reset_unbound [OF sp r4 c(4) assms(3,2)] a u s
  show "fst (forward cfg st x mem_arg z) = Inl UnboundLocalError"
    by (simp add: forward_def prepared_def)
next
  assume "init_hidden cfg \<and> mem_arg \<noteq> None"
  then show "fst (forward cfg st x mem_arg z) = Inl TypeError"
    by (auto simp: forward_def accept_mem_def Let_def)
qed

theorem unbound_threshold_before_spike_witness:
  "inhibition ((default_config (scalar (1/2)))\<lparr>inhibition := True, reset_delay := False\<rparr>) \<and>
   conforms ((default_config (scalar (1/2)))\<lparr>inhibition := True, reset_delay := False\<rparr>)
     (initial_state (scalar 1)) (matrix 2 2 [3/2, 1/4, 0, 0]) None \<and>
   length (shape (matrix 2 2 [3/2, 1/4, 0, 0])) = 2 \<and>
   fst (forward ((default_config (scalar (1/2)))\<lparr>inhibition := True, reset_delay := False\<rparr>)
     (initial_state (scalar 1)) (matrix 2 2 [3/2, 1/4, 0, 0]) None (\<lambda>i. 0)) = Inl UnboundLocalError"
proof -
  let ?cfg = "(default_config (scalar (1/2)))\<lparr>inhibition := True, reset_delay := False\<rparr>"
  let ?st = "initial_state (scalar 1)"
  let ?x = "matrix 2 2 [3/2, 1/4, 0, 0]"
  have h: "inhibition ?cfg" "\<not> reset_delay ?cfg" "reset_mechanism_val ?cfg = Subtract"
    "\<not> (init_hidden ?cfg \<and> (None :: tensor option) \<noteq> None)"
    "length (shape ?x) = 2" "0 < numel (shape ?x)"
    by (simp_all add: default_config_def matrix_def numel_def)
  have c: "conforms ?cfg ?st ?x None"
    by (simp add: conforms_def fits_def wf_tensor_def numel_def broadcast_shapes_def quant_def
        default_config_def initial_state_def scalar_def matrix_def zeros0_def)
  from unbound_threshold_before_spike [OF h(1,2,3), of ?st ?x None "\<lambda>i. 0"] c h(4,5,6)
  have "fst (forward ?cfg ?st ?x None (\<lambda>i. 0)) = Inl UnboundLocalError" by blast
  with h(1,5) c show ?thesis by simp
qed

text \<open>
  C8 as stated fails for a call that is rejected before it reaches the immediate reset:
  the neuron below owns its hidden state and a membrane is passed, so the call ends in
  the configuration error of line 210, not in the unbound-local error.
\<close>

theorem type_error_before_unbound_local_counterexample:
  "inhibition ((default_config (scalar (1/2)))\<lparr>init_hidden := True, inhibition := True, reset_delay := False\<rparr>) \<and>
   \<not> reset_delay ((default_config (scalar (1/2)))\<lparr>init_hidden := True, inhibition := True, reset_delay := False\<rparr>) \<and>
   reset_mechanism_val ((default_config (scalar (1/2)))\<lparr>init_hidden := True, inhibition := True, reset_delay := False\<rparr>) = Subtract \<and>
   fst (forward ((default_config (scalar (1/2)))\<lparr>init_hidden := True, inhibition := True, reset_delay := False\<rparr>)
     (initial_state (scalar 1)) (matrix 1 2 [3/2, 1/4]) (Some (matrix 1 2 [0, 0])) (\<lambda>i. 0)) = Inl TypeError \<and>
   TypeError \<noteq> UnboundLocalError"
  by code_simp

text \<open>
  C9. When the neuron owns its hidden state and a membrane is passed, the call raises
  the configuration error, and the state it leaves holds the passed membrane: the
  assignment of line 207 comes before the check of line 209.
\<close>

theorem config_error_after_overwrite:
  assumes "init_hidden cfg"
  shows "forward cfg st x (Some m) z = (Inl TypeError, st\<lparr>mem := m\<rparr>)"
  using assms by (simp add: forward_def accept_mem_def)

theorem config_error_after_overwrite_witness:
  "init_hidden ((default_config (scalar (1/2)))\<lparr>init_hidden := True\<rparr>) \<and>
   forward ((default_config (scalar (1/2)))\<lparr>init_hidden := True\<rparr>) (initial_state (scalar 1))
     (vector [1]) (Some (vector [5])) (\<lambda>i. 0) =
     (Inl TypeError, \<lparr>mem = vector [5], reset = zeros0, threshold = scalar 1\<rparr>) \<and>
   mem (initial_state (scalar 1)) \<noteq> vector [5]"
proof -
  have h: "init_hidden ((default_config (scalar (1/2)))\<lparr>init_hidden := True\<rparr>)"
    by (simp add: default_config_def)
  from config_error_after_overwrite [OF h, of "initial_state (scalar 1)" "vector [1]" "vector [5]" "\<lambda>i. 0"]
  show ?thesis by (simp add: default_config_def initial_state_def vector_def zeros0_def)
qed


text \<open>
  C10, at an input where it fails. Decay 1/2, threshold 1, funkiness 1, no reset delay,
  reset by subtraction; the membrane starts from 0, the input is 3/2, the draw is 1. The
  neuron spikes, the threshold becomes 2, and the membrane returned is
  \<open>3/2 - 1\<cdot>2 = -1/2\<close>: the threshold after the perturbation was subtracted, since the
  name \<^verbatim>\<open>threshold_before_spike\<close> is bound to the tensor that \<^verbatim>\<open>fire\<close> changes in place.
  With the threshold of before the perturbation it would be \<open>3/2 - 1\<cdot>1 = 1/2\<close>. For
  every conforming call, \<open>immediate_subtract_reads_stored_threshold\<close> gives the value.
\<close>

theorem immediate_reset_reads_perturbed_threshold:
  "forward ((default_config (scalar (1/2)))\<lparr>funkiness := 1, reset_delay := False\<rparr>)
     (initial_state (scalar 1)) (vector [3/2]) None (\<lambda>i. 1) =
     (Inr (vector [1], Some (vector [- 1/2])),
      \<lparr>mem = vector [- 1/2], reset = vector [0], threshold = scalar 2\<rparr>) \<and>
   starting_mem (initial_state (scalar 1)) (vector [3/2]) None = vector [0] \<and>
   threshold (initial_state (scalar 1)) = scalar 1 \<and>
   clamp01 (1/2) * 0 + 3/2 - 1 * 1 = (1/2 :: real)"
  by code_simp

end
